theory Spec2Isabelle
  imports Main "HOL-Library.AList" "HOL-Library.List_Lexorder" "HOL-Library.Char_ord"
begin

section \<open>Data model (types/podcast.ts)\<close>

text \<open>
  The interfaces \<^verbatim>\<open>Episode\<close> and \<^verbatim>\<open>Channel\<close> become records. Field names carry the
  prefix \<open>ep_\<close> or \<open>ch_\<close>, because both interfaces have fields called \<^verbatim>\<open>id\<close>,
  \<^verbatim>\<open>author\<close>, \<^verbatim>\<open>description\<close> and \<^verbatim>\<open>image_url\<close>.

  \<^item> \<^verbatim>\<open>episode_number: number | null\<close>: the parser stores \<^verbatim>\<open>null\<close>, the result of
    \<^verbatim>\<open>parseInt\<close> (an integer) or \<^verbatim>\<open>NaN\<close>; the three cases are kept apart.
  \<^item> \<^verbatim>\<open>date: string\<close> holds what \<^verbatim>\<open>Date.prototype.toISOString\<close> returned. An ISO string
    and the time value it denotes (milliseconds since the epoch, UTC) determine each other,
    and the store only ever reads the field through \<^verbatim>\<open>new Date(date).getTime()\<close>, so the
    record stores the time value. A date string that does not parse is outside this type:
    the parser cannot produce one, since \<^verbatim>\<open>toISOString\<close> throws first.
  \<^item> \<^verbatim>\<open>last_updated\<close> is declared in the interface but never written by the code under
    study; it is left out.
\<close>

datatype episode_number = Null | NaN | Number int

record episode =
  ep_id :: string
  ep_provider :: string
  ep_title :: string
  ep_episode_number :: episode_number
  ep_date :: int
  ep_audio_url :: string
  ep_image_url :: string
  ep_url :: string
  ep_duration :: string
  ep_author :: string
  ep_summary :: string
  ep_description :: string

record channel =
  ch_id :: string
  ch_name :: string
  ch_description :: string
  ch_author :: string
  ch_website :: string
  ch_rss_url :: string
  ch_image_url :: string
  ch_language :: string
  ch_total_episodes :: nat

text \<open>\<^verbatim>\<open>AllEpisodesData\<close> and \<^verbatim>\<open>ChannelsData\<close>: the two files of the store.\<close>

record all_episodes_data =
  episodes :: "episode list"
  total_episodes :: nat
  total_providers :: nat

record channels_data =
  channels :: "channel list"
  total_channels :: nat

text \<open>\<^verbatim>\<open>PodcastData & { channelInfo?: Channel }\<close>, the argument of \<^verbatim>\<open>saveData\<close>.\<close>

record podcast_data =
  pd_episodes :: "episode list"
  pd_channelInfo :: "channel option"

section \<open>Merge store (utils/data-storage.ts)\<close>

text \<open>
  A JavaScript \<^verbatim>\<open>Map\<close> iterates in insertion order, and \<^verbatim>\<open>set\<close> on a key that is present
  replaces the value in place. That is an association list with \<^const>\<open>AList.update\<close>.
  A \<^verbatim>\<open>Set\<close> of strings is a list without repetitions, extended by \<^const>\<open>List.insert\<close>.

  \<^verbatim>\<open>Array.prototype.sort\<close> is stable, and the comparator
  \<^verbatim>\<open>new Date(b.date).getTime() - new Date(a.date).getTime()\<close> orders by time value,
  newest first. A stable sort by a key has one possible result, which
  \<^const>\<open>sort_key\<close> (insertion sort) computes.
\<close>

definition has :: "(string \<times> 'v) list \<Rightarrow> string \<Rightarrow> bool" where
  "has m k = (k \<in> fst ` set m)"

definition values_of :: "(string \<times> 'v) list \<Rightarrow> 'v list" where
  "values_of m = map snd m"

definition sort_newest_first :: "episode list \<Rightarrow> episode list" where
  "sort_newest_first eps = sort_key (\<lambda>e. - ep_date e) eps"

text \<open>
  The state of the two \<^verbatim>\<open>forEach\<close> loops of \<^verbatim>\<open>saveToEpisodes\<close>: the map, the counter
  \<^verbatim>\<open>addedCount\<close> and the set \<^verbatim>\<open>providers\<close>.
\<close>

record merge_state =
  existingMap :: "(string \<times> episode) list"
  addedCount :: nat
  providers :: "string list"

definition load_existing :: "merge_state \<Rightarrow> episode \<Rightarrow> merge_state" where
  "load_existing s ep =
     s\<lparr>existingMap := AList.update (ep_id ep) ep (existingMap s),
       providers := List.insert (ep_provider ep) (providers s)\<rparr>"

definition add_or_update :: "merge_state \<Rightarrow> episode \<Rightarrow> merge_state" where
  "add_or_update s newEpisode =
     s\<lparr>existingMap := AList.update (ep_id newEpisode) newEpisode (existingMap s),
       addedCount := (if \<not> has (existingMap s) (ep_id newEpisode)
                      then addedCount s + 1 else addedCount s),
       providers := List.insert (ep_provider newEpisode) (providers s)\<rparr>"

definition merge_episodes :: "episode list option \<Rightarrow> episode list \<Rightarrow> merge_state" where
  "merge_episodes existingData newEpisodes =
     (case existingData of
        Some existing \<Rightarrow>
          foldl add_or_update
            (foldl load_existing \<lparr>existingMap = [], addedCount = 0, providers = []\<rparr> existing)
            newEpisodes
      | None \<Rightarrow>
          \<lparr>existingMap = [], addedCount = length newEpisodes,
           providers = foldl (\<lambda>ps ep. List.insert (ep_provider ep) ps) [] newEpisodes\<rparr>)"

text \<open>
  \<^verbatim>\<open>saveToEpisodes\<close>. The argument \<open>existingData\<close> is what reading \<^verbatim>\<open>episodes.json\<close>
  gave: \<open>None\<close> when the file is missing or is not JSON. The result is the object
  handed to \<^verbatim>\<open>writeJSON\<close>.
\<close>

definition unsortedEpisodes :: "episode list option \<Rightarrow> episode list \<Rightarrow> episode list" where
  "unsortedEpisodes existingData newEpisodes =
     (case existingData of
        Some existing \<Rightarrow> values_of (existingMap (merge_episodes existingData newEpisodes))
      | None \<Rightarrow> newEpisodes)"

definition mergedEpisodes :: "episode list option \<Rightarrow> episode list \<Rightarrow> episode list" where
  "mergedEpisodes existingData newEpisodes =
     sort_newest_first (unsortedEpisodes existingData newEpisodes)"

definition saveToEpisodes :: "episode list option \<Rightarrow> episode list \<Rightarrow> all_episodes_data" where
  "saveToEpisodes existingData newEpisodes =
     \<lparr>episodes = mergedEpisodes existingData newEpisodes,
      total_episodes = length (mergedEpisodes existingData newEpisodes),
      total_providers = length (providers (merge_episodes existingData newEpisodes))\<rparr>"

text \<open>
  \<^verbatim>\<open>saveToChannels\<close>. The channel list is sorted with \<^verbatim>\<open>a.name.localeCompare(b.name)\<close>,
  whose order is the host's collation; it is the parameter \<open>le\<close> (\<open>le a b\<close> when
  \<^verbatim>\<open>a.localeCompare(b) <= 0\<close>), used by a stable insertion sort.
\<close>

fun insert_by :: "('a \<Rightarrow> 'a \<Rightarrow> bool) \<Rightarrow> 'a \<Rightarrow> 'a list \<Rightarrow> 'a list" where
  "insert_by le x [] = [x]"
| "insert_by le x (y # ys) = (if le x y then x # y # ys else y # insert_by le x ys)"

definition sort_by :: "('a \<Rightarrow> 'a \<Rightarrow> bool) \<Rightarrow> 'a list \<Rightarrow> 'a list" where
  "sort_by le xs = foldr (insert_by le) xs []"

definition saveToChannels ::
  "(string \<Rightarrow> string \<Rightarrow> bool) \<Rightarrow> channel list option \<Rightarrow> channel \<Rightarrow> nat \<Rightarrow> channels_data" where
  "saveToChannels le existingData channelInfo0 episodeCount =
     (let channelInfo = channelInfo0\<lparr>ch_total_episodes := episodeCount\<rparr>;
          chans =
            (case existingData of
               Some existing \<Rightarrow>
                 sort_by (\<lambda>a b. le (ch_name a) (ch_name b))
                   (values_of
                     (AList.update (ch_id channelInfo) channelInfo
                        (foldl (\<lambda>m ch. AList.update (ch_id ch) ch m) [] existing)))
             | None \<Rightarrow> [channelInfo])
      in \<lparr>channels = chans, total_channels = length chans\<rparr>)"

text \<open>
  \<^verbatim>\<open>saveData\<close>: both files after the call. The channels file is rewritten only when the
  dataset carries a \<^verbatim>\<open>channelInfo\<close>; otherwise it stays as it was (\<open>None\<close>: no file).
  The parameter \<^verbatim>\<open>providerName\<close> is not used by the body. The third file,
  \<^verbatim>\<open>version.json\<close>, holds the time of the call only and is left out.
\<close>

record store =
  episodes_json :: "all_episodes_data option"
  channels_json :: "channels_data option"

definition saveData ::
  "(string \<Rightarrow> string \<Rightarrow> bool) \<Rightarrow> store \<Rightarrow> string \<Rightarrow> podcast_data \<Rightarrow> store" where
  "saveData le st providerName data =
     \<lparr>episodes_json =
        Some (saveToEpisodes (map_option episodes (episodes_json st)) (pd_episodes data)),
      channels_json =
        (case pd_channelInfo data of
           Some channelInfo \<Rightarrow>
             Some (saveToChannels le (map_option channels (channels_json st)) channelInfo
                     (length (pd_episodes data)))
         | None \<Rightarrow> channels_json st)\<rparr>"


section \<open>Reachability validator and batch scheduler (utils/rss-parser.ts)\<close>

text \<open>
  The network is not part of the program. One call of \<^verbatim>\<open>axios.head\<close> either resolves
  with a response, of which the code reads the status only (\<^verbatim>\<open>validateStatus\<close> accepts
  every status), or throws: a network error, or the abort that the 5000 ms timer triggers.
  What the attempts of one probe give is a function from the attempt number to such an
  outcome. The effects of a probe are recorded as a list of events: the request of attempt
  \<open>i\<close>, and the pause \<^verbatim>\<open>setTimeout(resolve, delay)\<close> in milliseconds.
\<close>

datatype outcome = Response nat | Thrown

datatype event = Head nat | Sleep nat

text \<open>
  The body of \<^verbatim>\<open>validateMp3Url\<close> after the guard: the \<^verbatim>\<open>for\<close> loop from \<open>attempt\<close> on.
  Both the branch after a response and the \<^verbatim>\<open>catch\<close> block pause for
  \<^verbatim>\<open>attempt * 1000\<close> and \<^verbatim>\<open>continue\<close> when \<^verbatim>\<open>attempt < retries\<close>.
\<close>

definition after_delay :: "nat \<Rightarrow> bool \<times> event list \<Rightarrow> bool \<times> event list" where
  "after_delay attempt rest =
     (fst rest, Head attempt # Sleep (attempt * 1000) # snd rest)"

function attempt_loop :: "(nat \<Rightarrow> outcome) \<Rightarrow> nat \<Rightarrow> nat \<Rightarrow> bool \<times> event list" where
  "attempt_loop net retries attempt =
     (if attempt \<le> retries then
        (case net attempt of
           Response status \<Rightarrow>
             if status = 200 then (True, [Head attempt])
             else if status = 404 then (False, [Head attempt])
             else if attempt < retries
               then after_delay attempt (attempt_loop net retries (attempt + 1))
               else (False, [Head attempt])
         | Thrown \<Rightarrow>
             if attempt < retries
               then after_delay attempt (attempt_loop net retries (attempt + 1))
               else (False, [Head attempt]))
      else (False, []))"
  by pat_completeness auto
termination
  by (relation "measure (\<lambda>(net, retries, attempt). Suc retries - attempt)") auto

definition validateMp3Url :: "(nat \<Rightarrow> outcome) \<Rightarrow> string \<Rightarrow> nat \<Rightarrow> bool \<times> event list" where
  "validateMp3Url net url retries =
     (if url = [] then (False, []) else attempt_loop net retries 1)"

text \<open>
  \<^verbatim>\<open>validateMp3UrlsBatch\<close>. The probe of the url at index \<open>j\<close> meets the network
  \<open>net j\<close>. \<^verbatim>\<open>Promise.all\<close> gives the results of a window in the order of the window,
  and the loop goes on after all of them have settled; a window is recorded as the list
  of its probes, each with its index and its events. \<^verbatim>\<open>validateMp3Url(url)\<close> is called
  with the default \<^verbatim>\<open>retries = 3\<close>.
\<close>

definition BATCH_SIZE :: nat where
  "BATCH_SIZE = 100"

type_synonym window = "(nat \<times> event list) list"

function batch_loop ::
  "(nat \<Rightarrow> nat \<Rightarrow> outcome) \<Rightarrow> string list \<Rightarrow> nat \<Rightarrow> bool list \<times> window list
     \<Rightarrow> bool list \<times> window list" where
  "batch_loop net urls i st =
     (if i < length urls then
        (let batch = take BATCH_SIZE (drop i urls);
             batchIndexes = map (\<lambda>idx. i + idx) [0..<length batch];
             probes = map (\<lambda>(j, url). validateMp3Url (net j) url 3) (zip batchIndexes batch);
             batchResults = map fst probes;
             results =
               foldl (\<lambda>res (isValid, idx). res[batchIndexes ! idx := isValid]) (fst st)
                 (zip batchResults [0..<length batchResults])
         in batch_loop net urls (i + BATCH_SIZE)
              (results, snd st @ [zip batchIndexes (map snd probes)]))
      else st)"
  by pat_completeness auto
termination
  by (relation "measure (\<lambda>(net, urls, i, st). length urls - i)") (auto simp: BATCH_SIZE_def)

definition validateMp3UrlsBatch ::
  "(nat \<Rightarrow> nat \<Rightarrow> outcome) \<Rightarrow> string list \<Rightarrow> bool list \<times> window list" where
  "validateMp3UrlsBatch net urls = batch_loop net urls 0 (replicate (length urls) False, [])"

text \<open>What the probe of the url at index \<open>j\<close> returns and what it does, taken alone.\<close>

definition probe_result :: "(nat \<Rightarrow> nat \<Rightarrow> outcome) \<Rightarrow> string list \<Rightarrow> nat \<Rightarrow> bool" where
  "probe_result net urls j = fst (validateMp3Url (net j) (urls ! j) 3)"

definition probe_events :: "(nat \<Rightarrow> nat \<Rightarrow> outcome) \<Rightarrow> string list \<Rightarrow> nat \<Rightarrow> event list" where
  "probe_events net urls j = snd (validateMp3Url (net j) (urls ! j) 3)"

text \<open>
  The order of events across probes. \<^verbatim>\<open>batch.map(url => this.validateMp3Url(url))\<close> calls
  the probes of a window one after the other, and each call runs up to its first
  \<^verbatim>\<open>await\<close>: the guard on the url and, for a url that is not empty, the request of attempt
  1. That is the first event of the probe, if it has one. Everything a probe does later
  happens when a response or a timer it waits for arrives, and in which order these arrive
  for different probes is for the network to decide. \<^verbatim>\<open>await Promise.all\<close> ends when every
  probe of the window has returned, and only then the loop goes to the next window.

  An event of the probe at index \<open>j\<close> is written \<open>(j, e)\<close>. A list of such events is a
  possible course of one window when it begins with the first events of the window's
  probes in the order of the calls, when the events of each probe, taken out of it, are
  the events of that probe in their order, and when it holds no event of another probe.
\<close>

definition window_trace ::
  "(nat \<Rightarrow> nat \<Rightarrow> outcome) \<Rightarrow> string list \<Rightarrow> nat list \<Rightarrow> (nat \<times> event) list \<Rightarrow> bool" where
  "window_trace net urls batchIndexes tr =
     (let calls = concat (map (\<lambda>j. map (Pair j) (take 1 (probe_events net urls j))) batchIndexes)
      in take (length calls) tr = calls
         \<and> list_all (\<lambda>j. map snd (filter (\<lambda>x. fst x = j) tr) = probe_events net urls j)
               batchIndexes
         \<and> list_all (\<lambda>x. fst x \<in> set batchIndexes) tr)"

text \<open>
  A possible course of the loop of \<^verbatim>\<open>validateMp3UrlsBatch\<close> from index \<open>i\<close> on: a course of
  the window at \<open>i\<close>, which has as many events as its probes have together, and after it
  a course of the loop from \<open>i + BATCH_SIZE\<close> on.
\<close>

function batch_trace ::
  "(nat \<Rightarrow> nat \<Rightarrow> outcome) \<Rightarrow> string list \<Rightarrow> nat \<Rightarrow> (nat \<times> event) list \<Rightarrow> bool" where
  "batch_trace net urls i tr =
     (if i < length urls then
        (let batch = take BATCH_SIZE (drop i urls);
             batchIndexes = map (\<lambda>idx. i + idx) [0..<length batch];
             n = sum_list (map (\<lambda>j. length (probe_events net urls j)) batchIndexes)
         in window_trace net urls batchIndexes (take n tr)
            \<and> batch_trace net urls (i + BATCH_SIZE) (drop n tr))
      else tr = [])"
  by pat_completeness auto
termination
  by (relation "measure (\<lambda>(net, urls, i, tr). length urls - i)") (auto simp: BATCH_SIZE_def)



text \<open>
  The schedule of section 4.3 of the specification, for a probe that ends with attempt
  \<open>k\<close>: attempts \<open>1\<close> to \<open>k\<close>, with a pause of \<open>i\<close> seconds after attempt \<open>i\<close>
  for each \<open>i < k\<close>. Written from the specification, to be compared with the loop.
\<close>

definition spec_schedule_from :: "nat \<Rightarrow> nat \<Rightarrow> event list" where
  "spec_schedule_from a k = concat (map (\<lambda>i. [Head i, Sleep (i * 1000)]) [a..<k]) @ [Head k]"

definition spec_schedule :: "nat \<Rightarrow> event list" where
  "spec_schedule k = spec_schedule_from 1 k"

definition retryable :: "outcome \<Rightarrow> bool" where
  "retryable out = (out \<noteq> Response 200 \<and> out \<noteq> Response 404)"

text \<open>
  The windows of section 4.4 of the specification for \<open>n\<close> urls: window \<open>w\<close> holds the
  indices from \<open>w * 100\<close> up to \<open>w * 100 + 100\<close>, cut at \<open>n\<close>. Written from the
  specification, with its window size of 100, to be compared with the loop.
\<close>

definition spec_windows_from :: "nat \<Rightarrow> nat \<Rightarrow> nat list list" where
  "spec_windows_from c n =
     map (\<lambda>w. [w * 100 ..< min (w * 100 + 100) n]) [c ..< (n + 99) div 100]"

definition spec_windows :: "nat \<Rightarrow> nat list list" where
  "spec_windows n = spec_windows_from 0 n"

section \<open>Feed items to episodes (utils/rss-parser.ts)\<close>

subsection \<open>Strings\<close>

text \<open>
  A JavaScript string is a sequence of UTF-16 code units; the model has the code units
  below 256, which \<^typ>\<open>char\<close> offers. Among them the white space of \<^verbatim>\<open>trim\<close>, of
  \<^verbatim>\<open>\s\<close> and of \<^verbatim>\<open>parseInt\<close> is TAB, LF, VT, FF, CR, SP and NBSP, and the line
  terminators, which \<^verbatim>\<open>.\<close> does not match, are LF and CR.
\<close>

definition js_space :: "char \<Rightarrow> bool" where
  "js_space c = (c \<in> set [CHR 0x09, CHR 0x0A, CHR 0x0B, CHR 0x0C, CHR 0x0D, CHR 0x20, CHR 0xA0])"

definition line_terminator :: "char \<Rightarrow> bool" where
  "line_terminator c = (c = CHR 0x0A \<or> c = CHR 0x0D)"

definition trim :: "string \<Rightarrow> string" where
  "trim s = rev (dropWhile js_space (rev (dropWhile js_space s)))"

text \<open>
  \<^verbatim>\<open>a || b\<close> on values that are a string or \<^verbatim>\<open>undefined\<close>: the first operand when it is
  a string that is not empty, the second otherwise.
\<close>

definition truthy :: "string option \<Rightarrow> bool" where
  "truthy v = (case v of None \<Rightarrow> False | Some s \<Rightarrow> s \<noteq> [])"

definition or_else :: "string option \<Rightarrow> string option \<Rightarrow> string option" where
  "or_else a b = (if truthy a then a else b)"

definition or_empty :: "string option \<Rightarrow> string" where
  "or_empty a = (case a of None \<Rightarrow> [] | Some s \<Rightarrow> s)"

text \<open>Matching a literal of a regular expression with the flag \<^verbatim>\<open>i\<close>: ASCII letters fold.\<close>

definition to_lower :: "char \<Rightarrow> char" where
  "to_lower c = (if CHR ''A'' \<le> c \<and> c \<le> CHR ''Z'' then char_of (of_char c + (32::nat)) else c)"

fun strip_prefix :: "(char \<Rightarrow> char \<Rightarrow> bool) \<Rightarrow> string \<Rightarrow> string \<Rightarrow> string option" where
  "strip_prefix eq [] s = Some s"
| "strip_prefix eq (p # ps) [] = None"
| "strip_prefix eq (p # ps) (c # cs) = (if eq p c then strip_prefix eq ps cs else None)"

definition strip_prefix_ci :: "string \<Rightarrow> string \<Rightarrow> string option" where
  "strip_prefix_ci lit s = strip_prefix (\<lambda>p c. to_lower p = to_lower c) lit s"

subsection \<open>cleanCDATA and the replacements on text\<close>

text \<open>
  \<^verbatim>\<open>cleanCDATA\<close>: the prefix \<^verbatim>\<open><![CDATA[\<close> and the suffix \<^verbatim>\<open>]]>\<close> are removed when
  present, then the text is trimmed.
\<close>

definition strip_suffix_exact :: "string \<Rightarrow> string \<Rightarrow> string" where
  "strip_suffix_exact suf s =
     (case strip_prefix (=) (rev suf) (rev s) of Some r \<Rightarrow> rev r | None \<Rightarrow> s)"

definition cleanCDATA :: "string \<Rightarrow> string" where
  "cleanCDATA text =
     (if text = [] then []
      else trim (strip_suffix_exact '']]>''
             (case strip_prefix (=) ''<![CDATA['' text of Some r \<Rightarrow> r | None \<Rightarrow> text)))"

text \<open>
  \<^verbatim>\<open>.replace(/<[^>]*>/g, '')\<close>: every \<^verbatim>\<open><\<close> that has a \<^verbatim>\<open>>\<close> somewhere after it is
  removed together with everything up to the first such \<^verbatim>\<open>>\<close>.
\<close>

function strip_tags :: "string \<Rightarrow> string" where
  "strip_tags [] = []"
| "strip_tags (c # cs) =
     (if c = CHR ''<'' \<and> CHR ''>'' \<in> set cs
      then strip_tags (tl (dropWhile (\<lambda>d. d \<noteq> CHR ''>'') cs))
      else c # strip_tags cs)"
  by pat_completeness auto
termination
proof (relation "measure length")
  fix c :: char and cs :: string
  have "length (tl (dropWhile (\<lambda>d. d \<noteq> CHR ''>'') cs)) \<le> length cs"
    using length_dropWhile_le [of "\<lambda>d. d \<noteq> CHR ''>''" cs] by simp
  then show "(tl (dropWhile (\<lambda>d. d \<noteq> CHR ''>'') cs), c # cs) \<in> measure length"
    by simp
qed simp_all

text \<open>
  \<^verbatim>\<open>.replace(/\s*\(.*?\)\s*/, '')\<close>, applied to \<^verbatim>\<open>item.author\<close>: the first \<^verbatim>\<open>(\<close> that is
  closed by a \<^verbatim>\<open>)\<close> before the line ends is removed up to that \<^verbatim>\<open>)\<close>, with the white
  space on both sides.
\<close>

definition close_paren :: "string \<Rightarrow> string option" where
  "close_paren s =
     (case dropWhile (\<lambda>c. c \<noteq> CHR '')'' \<and> \<not> line_terminator c) s of
        [] \<Rightarrow> None
      | c # rest \<Rightarrow> if c = CHR '')'' then Some (dropWhile js_space rest) else None)"

fun remove_parenthesis :: "string \<Rightarrow> string \<Rightarrow> string" where
  "remove_parenthesis seen [] = rev seen"
| "remove_parenthesis seen (c # cs) =
     (if c = CHR ''(''
      then (case close_paren cs of
              Some rest \<Rightarrow> rev (dropWhile js_space seen) @ rest
            | None \<Rightarrow> remove_parenthesis (c # seen) cs)
      else remove_parenthesis (c # seen) cs)"

subsection \<open>extractPermanentUrl\<close>

text \<open>
  Each of the eight patterns is anchored at the start and begins with \<^verbatim>\<open>https?:\/\/\<close>;
  a match is replaced by \<^verbatim>\<open>https://\<close>. The patterns are tried one after the other on
  the result of the one before.
\<close>

definition strip_scheme :: "string \<Rightarrow> string option" where
  "strip_scheme s =
     (case strip_prefix_ci ''http'' s of
        None \<Rightarrow> None
      | Some r \<Rightarrow>
          (case strip_prefix_ci ''s'' r of
             Some r' \<Rightarrow> strip_prefix_ci ''://'' r'
           | None \<Rightarrow> strip_prefix_ci ''://'' r))"

text \<open>\<^verbatim>\<open>.*?\<close> followed by a literal: the first place on the line where the literal starts.\<close>

fun skip_to :: "string \<Rightarrow> string \<Rightarrow> string option" where
  "skip_to lit [] = strip_prefix_ci lit []"
| "skip_to lit (c # cs) =
     (case strip_prefix_ci lit (c # cs) of
        Some r \<Rightarrow> Some r
      | None \<Rightarrow> if line_terminator c then None else skip_to lit cs)"

text \<open>\<^verbatim>\<open>[^\/]+\/\<close>: a segment that is not empty, and the slash after it.\<close>

definition skip_segment :: "string \<Rightarrow> string option" where
  "skip_segment s =
     (case dropWhile (\<lambda>c. c \<noteq> CHR ''/'') s of
        [] \<Rightarrow> None
      | c # rest \<Rightarrow> if takeWhile (\<lambda>c. c \<noteq> CHR ''/'') s = [] then None else Some rest)"

datatype tracking_pattern = Literal string | AnyThen string | LiteralSegment string

definition trackingPatterns :: "tracking_pattern list" where
  "trackingPatterns =
     [Literal ''www.podtrac.com/pts/redirect.mp3/'',
      Literal ''dts.podtrac.com/redirect.mp3/'',
      Literal ''tracking.feedpress.it/'',
      AnyThen ''/redirect.mp3/'',
      Literal ''prfx.byspotify.com/e/op3.dev/e/'',
      Literal ''pdst.fm/e/'',
      LiteralSegment ''pfx.vpixl.com/'',
      Literal ''pscrb.fm/rss/p/'']"

definition match_pattern :: "tracking_pattern \<Rightarrow> string \<Rightarrow> string option" where
  "match_pattern pat s =
     (case strip_scheme s of
        None \<Rightarrow> None
      | Some r \<Rightarrow>
          (case pat of
             Literal lit \<Rightarrow> strip_prefix_ci lit r
           | AnyThen lit \<Rightarrow> skip_to lit r
           | LiteralSegment lit \<Rightarrow>
               (case strip_prefix_ci lit r of None \<Rightarrow> None | Some r' \<Rightarrow> skip_segment r')))"

definition replace_pattern :: "string \<Rightarrow> tracking_pattern \<Rightarrow> string" where
  "replace_pattern cleanUrl pat =
     (case match_pattern pat cleanUrl of Some rest \<Rightarrow> ''https://'' @ rest | None \<Rightarrow> cleanUrl)"

definition extractPermanentUrl :: "string \<Rightarrow> string" where
  "extractPermanentUrl url = (if url = [] then [] else foldl replace_pattern url trackingPatterns)"

subsection \<open>Numbers and dates of the host\<close>

text \<open>
  \<^verbatim>\<open>parseInt(s, 10)\<close>: leading white space is skipped, a sign is read, and the longest
  run of decimal digits gives the value; without a digit the result is \<^verbatim>\<open>NaN\<close>. The
  host computes in doubles, which hold every integer below \<open>2^53\<close> exactly; the model
  keeps the exact integer for longer runs too. \<^verbatim>\<open>-0\<close> is \<open>Number 0\<close>.
\<close>

definition is_digit :: "char \<Rightarrow> bool" where
  "is_digit c = (CHR ''0'' \<le> c \<and> c \<le> CHR ''9'')"

definition digits_value :: "string \<Rightarrow> int" where
  "digits_value ds = foldl (\<lambda>n c. 10 * n + (of_char c - 48)) 0 ds"

definition parseInt :: "string \<Rightarrow> episode_number" where
  "parseInt s =
     (let s1 = dropWhile js_space s;
          sign = (case s1 of c # r \<Rightarrow> if c = CHR ''-'' then - 1 else 1 | [] \<Rightarrow> (1::int));
          s2 = (case s1 of c # r \<Rightarrow> if c = CHR ''-'' \<or> c = CHR ''+'' then r else s1 | [] \<Rightarrow> []);
          ds = takeWhile is_digit s2
      in if ds = [] then NaN else Number (sign * digits_value ds))"

text \<open>
  \<^verbatim>\<open>String(n)\<close> for an integer \<open>n\<close>, as a template literal renders it: the decimal
  digits, with a minus sign when negative (up to \<open>10^21\<close>, where the host changes to
  exponent notation).
\<close>

definition digit_char :: "nat \<Rightarrow> char" where
  "digit_char d = char_of (48 + d)"

function decimal :: "nat \<Rightarrow> string" where
  "decimal n = (if n < 10 then [digit_char n] else decimal (n div 10) @ [digit_char (n mod 10)])"
  by pat_completeness auto
termination
  by (relation "measure id") auto

definition number_to_string :: "int \<Rightarrow> string" where
  "number_to_string n = (if n < 0 then CHR ''-'' # decimal (nat (- n)) else decimal (nat n))"

definition pad_start :: "nat \<Rightarrow> string \<Rightarrow> string" where
  "pad_start width s = replicate (width - length s) CHR ''0'' @ s"

text \<open>
  A \<^verbatim>\<open>Date\<close> is its time value: milliseconds since the epoch, at most \<open>8.64 * 10^15\<close>
  in absolute value, or \<^verbatim>\<open>NaN\<close> for an invalid date (\<open>None\<close>). How \<^verbatim>\<open>new Date(s)\<close> reads
  a string that is not in the ISO format (the dates of RSS feeds are not) is left to the
  host by the language standard: the host's parser is the parameter \<open>Date_parse\<close>. The
  empty string is not a date for any host.
\<close>

definition new_Date :: "(string \<Rightarrow> int option) \<Rightarrow> string \<Rightarrow> int option" where
  "new_Date Date_parse s =
     (if s = [] then None
      else (case Date_parse s of
              None \<Rightarrow> None
            | Some t \<Rightarrow> if \<bar>t\<bar> \<le> 8640000000000000 then Some t else None))"

text \<open>
  The calendar date of a day number (days since 1970-01-01) in the proleptic Gregorian
  calendar, by the usual computation with eras of 400 years that begin on 1 March.
\<close>

definition civil_from_days :: "int \<Rightarrow> int \<times> int \<times> int" where
  "civil_from_days days =
     (let z = days + 719468;
          era = z div 146097;
          doe = z - era * 146097;
          yoe = (doe - doe div 1460 + doe div 36524 - doe div 146096) div 365;
          doy = doe - (365 * yoe + yoe div 4 - yoe div 100);
          mp = (5 * doy + 2) div 153;
          d = doy - (153 * mp + 2) div 5 + 1;
          m = (if mp < 10 then mp + 3 else mp - 9);
          y = yoe + era * 400 + (if m \<le> 2 then 1 else 0)
      in (y, m, d))"

text \<open>
  \<^verbatim>\<open>toISOString().split('T')[0]\<close>: the date part \<^verbatim>\<open>YYYY-MM-DD\<close> in UTC. Years outside
  0 to 9999 are written with a sign and six digits.
\<close>

definition iso_year :: "int \<Rightarrow> string" where
  "iso_year y =
     (if 0 \<le> y \<and> y \<le> 9999 then pad_start 4 (decimal (nat y))
      else (if y < 0 then CHR ''-'' else CHR ''+'') # pad_start 6 (decimal (nat \<bar>y\<bar>)))"

definition iso_date_part :: "int \<Rightarrow> string" where
  "iso_date_part t =
     (case civil_from_days (t div 86400000) of
        (y, m, d) \<Rightarrow>
          iso_year y @ ''-'' @ pad_start 2 (decimal (nat m)) @ ''-'' @ pad_start 2 (decimal (nat d)))"

subsection \<open>extractEpisodes\<close>

text \<open>
  An item as \<^verbatim>\<open>xml2js\<close> delivers it (\<^verbatim>\<open>explicitArray: false\<close>, \<^verbatim>\<open>mergeAttrs: true\<close>): an
  element with text only is a string, an absent element is \<^verbatim>\<open>undefined\<close>, and an element
  with attributes is an object of which the code reads \<^verbatim>\<open>href\<close> or \<^verbatim>\<open>url\<close>. The record
  has one optional string for each value the code reads, named after the property with
  the prefix \<open>item_\<close>; \<open>item_itunes_image\<close> is the element in its text form and
  \<open>item_itunes_image_href\<close> its attribute.
\<close>

record feed_item =
  item_itunes_episode :: "string option"
  item_pubDate :: "string option"
  item_description :: "string option"
  item_content_encoded :: "string option"
  item_itunes_summary :: "string option"
  item_itunes_subtitle :: "string option"
  item_enclosure_url :: "string option"
  item_itunes_image_href :: "string option"
  item_itunes_image :: "string option"
  item_media_thumbnail_url :: "string option"
  item_media_content_url :: "string option"
  item_itunes_author :: "string option"
  item_author :: "string option"
  item_dc_creator :: "string option"
  item_title :: "string option"
  item_link :: "string option"
  item_itunes_duration :: "string option"

text \<open>
  \<^verbatim>\<open>channel.item\<close>: \<^verbatim>\<open>undefined\<close> for a channel without items, one item, or an array.
\<close>

datatype feed_items = NoItem | OneItem feed_item | ItemArray "feed_item list"

datatype js_error = RangeError | TypeError

text \<open>
  The template literal of the id. \<^verbatim>\<open>episodeNumber || 'unknown'\<close> takes the second operand
  for \<^verbatim>\<open>null\<close>, for \<^verbatim>\<open>NaN\<close> and for 0.
\<close>

definition episode_label :: "episode_number \<Rightarrow> string" where
  "episode_label episodeNumber =
     (case episodeNumber of
        Null \<Rightarrow> ''unknown''
      | NaN \<Rightarrow> ''unknown''
      | Number n \<Rightarrow> if n = 0 then ''unknown'' else number_to_string n)"

definition episode_id :: "int \<Rightarrow> string \<Rightarrow> episode_number \<Rightarrow> string" where
  "episode_id pubDate providerName episodeNumber =
     filter (\<lambda>c. c \<noteq> CHR ''-'') (iso_date_part pubDate)
       @ ''-'' @ providerName @ ''-ep'' @ episode_label episodeNumber"

text \<open>
  The callback of \<^verbatim>\<open>episodeArray.map\<close>. It throws where the source throws:
  \<^verbatim>\<open>item['itunes:episode']\<close> on \<^verbatim>\<open>undefined\<close> is a \<^verbatim>\<open>TypeError\<close>, and \<^verbatim>\<open>toISOString\<close> on an
  invalid date is a \<^verbatim>\<open>RangeError\<close>.
\<close>

definition parse_item ::
  "(string \<Rightarrow> int option) \<Rightarrow> string \<Rightarrow> string \<Rightarrow> feed_item option \<Rightarrow> js_error + episode" where
  "parse_item Date_parse providerName channelImageUrl entry =
     (case entry of
        None \<Rightarrow> Inl TypeError
      | Some item \<Rightarrow>
          (let episodeNumber =
                 (if truthy (item_itunes_episode item)
                  then parseInt (or_empty (item_itunes_episode item)) else Null)
           in case new_Date Date_parse (or_empty (or_else (item_pubDate item) (Some []))) of
                None \<Rightarrow> Inl RangeError
              | Some pubDate \<Rightarrow>
                  (let description =
                         cleanCDATA (or_empty (or_else (item_description item)
                           (or_else (item_content_encoded item) (Some []))));
                       summary =
                         trim (strip_tags (cleanCDATA (or_empty (or_else (item_itunes_summary item)
                           (or_else (item_itunes_subtitle item)
                             (or_else (item_description item) (Some [])))))));
                       rawAudioUrl = or_empty (or_else (item_enclosure_url item) (Some []));
                       audioUrl = extractPermanentUrl rawAudioUrl;
                       episodeImage =
                         or_empty (or_else (item_itunes_image_href item)
                           (or_else (item_itunes_image item)
                             (or_else (item_media_thumbnail_url item)
                               (or_else (item_media_content_url item) (Some [])))));
                       imageUrl = (if episodeImage \<noteq> [] then episodeImage else channelImageUrl);
                       author =
                         or_empty (or_else (item_itunes_author item)
                           (or_else (map_option (remove_parenthesis []) (item_author item))
                             (or_else (item_dc_creator item) (Some []))))
                   in Inr \<lparr>ep_id = episode_id pubDate providerName episodeNumber,
                           ep_provider = providerName,
                           ep_title = cleanCDATA (or_empty (or_else (item_title item) (Some []))),
                           ep_episode_number = episodeNumber,
                           ep_date = pubDate,
                           ep_audio_url = audioUrl,
                           ep_image_url = imageUrl,
                           ep_url = or_empty (or_else (item_link item) (Some [])),
                           ep_duration = or_empty (or_else (item_itunes_duration item) (Some [])),
                           ep_author = cleanCDATA author,
                           ep_summary = summary,
                           ep_description = description\<rparr>)))"

text \<open>\<^verbatim>\<open>Array.prototype.map\<close> with a callback that may throw: the first throw ends the map.\<close>

fun map_or_throw :: "('a \<Rightarrow> js_error + 'b) \<Rightarrow> 'a list \<Rightarrow> js_error + 'b list" where
  "map_or_throw f [] = Inr []"
| "map_or_throw f (x # xs) =
     (case f x of
        Inl e \<Rightarrow> Inl e
      | Inr y \<Rightarrow> (case map_or_throw f xs of Inl e \<Rightarrow> Inl e | Inr ys \<Rightarrow> Inr (y # ys)))"

definition episodeArray :: "feed_items \<Rightarrow> feed_item option list" where
  "episodeArray items =
     (case items of
        ItemArray xs \<Rightarrow> map Some xs
      | OneItem x \<Rightarrow> [Some x]
      | NoItem \<Rightarrow> [None])"

definition parsedEpisodes ::
  "(string \<Rightarrow> int option) \<Rightarrow> string \<Rightarrow> string \<Rightarrow> feed_items \<Rightarrow> js_error + episode list" where
  "parsedEpisodes Date_parse providerName channelImageUrl items =
     map_or_throw (parse_item Date_parse providerName channelImageUrl) (episodeArray items)"

text \<open>
  \<^verbatim>\<open>extractEpisodes\<close>: the episodes returned and the windows of probes made. The set
  \<^verbatim>\<open>existingEpisodeIds\<close> is a parameter; \<open>net\<close> is the network the probes meet, the probe
  of the \<open>j\<close>-th new episode meeting \<open>net j\<close>.
\<close>

definition extractEpisodes ::
  "(string \<Rightarrow> int option) \<Rightarrow> (nat \<Rightarrow> nat \<Rightarrow> outcome) \<Rightarrow> string \<Rightarrow> string set \<Rightarrow> feed_items
     \<Rightarrow> string \<Rightarrow> js_error + episode list \<times> window list" where
  "extractEpisodes Date_parse net providerName existingEpisodeIds items channelImageUrl =
     (case parsedEpisodes Date_parse providerName channelImageUrl items of
        Inl e \<Rightarrow> Inl e
      | Inr parsed \<Rightarrow>
          (let existingEpisodes = filter (\<lambda>ep. ep_id ep \<in> existingEpisodeIds) parsed;
               newEpisodes = filter (\<lambda>ep. ep_id ep \<notin> existingEpisodeIds) parsed
           in if length newEpisodes > 0
              then (let validation = validateMp3UrlsBatch net (map ep_audio_url newEpisodes);
                        validationResults = fst validation;
                        validNewEpisodes =
                          map fst (filter (\<lambda>(ep, index). validationResults ! index)
                                     (zip newEpisodes [0..<length newEpisodes]))
                    in Inr (existingEpisodes @ validNewEpisodes, snd validation))
              else Inr (existingEpisodes, [])))"

section \<open>Example data\<close>

text \<open>Concrete episodes and channels for the instances below; unnamed fields are empty.\<close>

definition example_episode :: "string \<Rightarrow> string \<Rightarrow> string \<Rightarrow> int \<Rightarrow> episode" where
  "example_episode i p t d =
     \<lparr>ep_id = i, ep_provider = p, ep_title = t, ep_episode_number = Null, ep_date = d,
      ep_audio_url = [], ep_image_url = [], ep_url = [], ep_duration = [], ep_author = [],
      ep_summary = [], ep_description = []\<rparr>"

definition example_channel :: "string \<Rightarrow> string \<Rightarrow> channel" where
  "example_channel i n =
     \<lparr>ch_id = i, ch_name = n, ch_description = [], ch_author = [], ch_website = [],
      ch_rss_url = [], ch_image_url = [], ch_language = ''en'', ch_total_episodes = 0\<rparr>"

text \<open>
  An episodes file in which two entries share an id. The branch of \<^verbatim>\<open>saveToEpisodes\<close>
  for a missing file writes such a list when the feed has two items with one date and one
  episode number (or none), since that branch sorts the incoming array without going
  through the map.
\<close>

definition dup_store :: "episode list" where
  "dup_store = [example_episode ''x'' ''p'' ''A'' 2, example_episode ''x'' ''p'' ''B'' 1]"

definition two_store :: "episode list" where
  "two_store = [example_episode ''a'' ''p'' ''A'' 1, example_episode ''b'' ''p'' ''B'' 2]"

text \<open>
  A provider whose feed lists only its newest episode: the store already holds an older
  episode of provider \<open>p\<close>, and the run brings one new episode of \<open>p\<close>.
\<close>

definition truncated_feed_store :: store where
  "truncated_feed_store =
     \<lparr>episodes_json = Some \<lparr>episodes = [example_episode ''x'' ''p'' ''A'' 2],
                             total_episodes = 1, total_providers = 1\<rparr>,
      channels_json = None\<rparr>"

definition truncated_feed_data :: podcast_data where
  "truncated_feed_data =
     \<lparr>pd_episodes = [example_episode ''y'' ''p'' ''C'' 3],
      pd_channelInfo = Some (example_channel ''p'' ''P'')\<rparr>"

definition provider_count :: "string \<Rightarrow> episode list \<Rightarrow> nat" where
  "provider_count p eps = length (filter (\<lambda>ep. ep_provider ep = p) eps)"

definition channel_totals :: "string \<Rightarrow> channel list \<Rightarrow> nat list" where
  "channel_totals p chans = map ch_total_episodes (filter (\<lambda>c. ch_id c = p) chans)"


text \<open>The map of \<^verbatim>\<open>saveToEpisodes\<close> after a list of \<^verbatim>\<open>set\<close> calls, as the proofs see it.\<close>

definition overlay :: "(string \<times> episode) list \<Rightarrow> episode list \<Rightarrow> (string \<times> episode) list" where
  "overlay m eps = foldl (\<lambda>m ep. AList.update (ep_id ep) ep m) m eps"

section \<open>Example networks\<close>

text \<open>A network that answers 500, then throws, then answers 200.\<close>

definition flaky_then_ok :: "nat \<Rightarrow> outcome" where
  "flaky_then_ok i = (if i = 1 then Response 500 else if i = 2 then Thrown else Response 200)"

text \<open>Three urls of which the middle one is answered 404, or throws at every attempt.\<close>

definition middle_is_missing :: "nat \<Rightarrow> nat \<Rightarrow> outcome" where
  "middle_is_missing j a = (if j = 1 then Response 404 else Response 200)"

definition middle_crashes :: "nat \<Rightarrow> nat \<Rightarrow> outcome" where
  "middle_crashes j a = (if j = 1 then Thrown else Response 200)"




text \<open>A network on which the first attempt of every probe is answered 500, the second 200.\<close>

definition second_attempt_ok :: "nat \<Rightarrow> nat \<Rightarrow> outcome" where
  "second_attempt_ok j a = (if a = 1 then Response 500 else Response 200)"

section \<open>Example feed\<close>

text \<open>
  A host parser that reads one RSS date, the publish date of the item below:
  2025-11-04T08:00:00Z is 1762243200000 ms after the epoch.
\<close>

definition example_Date_parse :: "string \<Rightarrow> int option" where
  "example_Date_parse s =
     (if s = ''Tue, 04 Nov 2025 08:00:00 +0000'' then Some 1762243200000 else None)"

definition dated_item :: feed_item where
  "dated_item =
     \<lparr>item_itunes_episode = Some ''165'',
      item_pubDate = Some ''Tue, 04 Nov 2025 08:00:00 +0000'',
      item_description = Some ''<![CDATA[<p>Tanya</p>]]>'',
      item_content_encoded = None,
      item_itunes_summary = None,
      item_itunes_subtitle = None,
      item_enclosure_url = Some ''https://www.podtrac.com/pts/redirect.mp3/traffic.example.com/ep165.mp3'',
      item_itunes_image_href = None,
      item_itunes_image = None,
      item_media_thumbnail_url = None,
      item_media_content_url = None,
      item_itunes_author = Some ''Jack Rhysider'',
      item_author = None,
      item_dc_creator = None,
      item_title = Some ''165: Tanya'',
      item_link = Some ''https://darknetdiaries.com/episode/165/'',
      item_itunes_duration = Some ''01:05:00''\<rparr>"

text \<open>The same item without a \<^verbatim>\<open>pubDate\<close> element, and with the episode number 0.\<close>

definition undated_item :: feed_item where
  "undated_item = dated_item\<lparr>item_pubDate := None\<rparr>"

definition episode_zero_item :: feed_item where
  "episode_zero_item = dated_item\<lparr>item_itunes_episode := Some ''0''\<rparr>"

definition episode_165 :: episode where
  "episode_165 =
     \<lparr>ep_id = ''20251104-darknetdiaries-ep165'',
      ep_provider = ''darknetdiaries'',
      ep_title = ''165: Tanya'',
      ep_episode_number = Number 165,
      ep_date = 1762243200000,
      ep_audio_url = ''https://traffic.example.com/ep165.mp3'',
      ep_image_url = ''https://example.com/cover.jpg'',
      ep_url = ''https://darknetdiaries.com/episode/165/'',
      ep_duration = ''01:05:00'',
      ep_author = ''Jack Rhysider'',
      ep_summary = ''Tanya'',
      ep_description = ''<p>Tanya</p>''\<rparr>"

text \<open>A network on which every request is answered 200.\<close>

definition all_ok :: "nat \<Rightarrow> nat \<Rightarrow> outcome" where
  "all_ok j a = Response 200"

section \<open>Properties of the merge store\<close>

subsection \<open>The map after loading and overlaying\<close>

lemma overlay_Nil: "overlay m [] = m"
  by (simp add: overlay_def)

lemma overlay_Cons: "overlay m (x # xs) = overlay (AList.update (ep_id x) x m) xs"
  by (simp add: overlay_def)

lemma overlay_snoc: "overlay m (xs @ [x]) = AList.update (ep_id x) x (overlay m xs)"
  by (simp add: overlay_def)

lemma overlay_append: "overlay m (xs @ ys) = overlay (overlay m xs) ys"
  by (simp add: overlay_def)

lemma existingMap_load: "existingMap (foldl load_existing s xs) = overlay (existingMap s) xs"
  by (induction xs arbitrary: s) (simp_all add: overlay_Nil overlay_Cons load_existing_def)

lemma existingMap_add: "existingMap (foldl add_or_update s xs) = overlay (existingMap s) xs"
  by (induction xs arbitrary: s) (simp_all add: overlay_Nil overlay_Cons add_or_update_def)

lemma existingMap_merge:
  "existingMap (merge_episodes (Some prior) incoming) = overlay (overlay [] prior) incoming"
  by (simp add: merge_episodes_def existingMap_add existingMap_load)

lemma overlay_distinct: "distinct (map fst m) \<Longrightarrow> distinct (map fst (overlay m eps))"
  by (induction eps arbitrary: m) (simp_all add: overlay_Nil overlay_Cons distinct_update)

lemma overlay_keys: "fst ` set (overlay m eps) = fst ` set m \<union> ep_id ` set eps"
  by (induction eps arbitrary: m) (auto simp: overlay_Nil overlay_Cons dom_update)

lemma update_keeps: "(k, v) \<in> set m \<Longrightarrow> k \<noteq> k' \<Longrightarrow> (k, v) \<in> set (AList.update k' v' m)"
  by (induction m) auto

lemma update_member: "(k, v) \<in> set (AList.update k v m)"
  by (induction m) auto

lemma update_set_subset: "set (AList.update k v m) \<subseteq> insert (k, v) (set m)"
  by (induction m) auto

lemma overlay_keeps:
  "(k, v) \<in> set m \<Longrightarrow> k \<notin> ep_id ` set eps \<Longrightarrow> (k, v) \<in> set (overlay m eps)"
  by (induction eps arbitrary: m) (auto simp: overlay_Nil overlay_Cons update_keeps)

lemma overlay_id_inv:
  "(\<forall>(k, v)\<in>set m. k = ep_id v) \<Longrightarrow> (\<forall>(k, v)\<in>set (overlay m eps). k = ep_id v)"
proof (induction eps arbitrary: m)
  case Nil
  then show ?case by (simp add: overlay_Nil)
next
  case (Cons x xs)
  have "\<forall>(k, v)\<in>set (AList.update (ep_id x) x m). k = ep_id v"
    using Cons.prems update_set_subset [of "ep_id x" x m] by auto
  then show ?case using Cons.IH by (simp add: overlay_Cons)
qed

lemma distinct_keys_length: "distinct (map fst m) \<Longrightarrow> length m = card (fst ` set m)"
  by (metis distinct_card length_map set_map)

lemma length_overlay_prior: "length (overlay [] prior) = card (ep_id ` set prior)"
proof -
  have "distinct (map fst (overlay [] prior))" by (simp add: overlay_distinct)
  then have "length (overlay [] prior) = card (fst ` set (overlay [] prior))"
    by (rule distinct_keys_length)
  then show ?thesis by (simp add: overlay_keys)
qed

lemma length_overlay_prior_le: "length (overlay [] prior) \<le> length prior"
proof -
  have "card (ep_id ` set prior) \<le> card (set prior)" by (rule card_image_le) simp
  also have "\<dots> \<le> length prior" by (rule card_length)
  finally show ?thesis by (simp add: length_overlay_prior)
qed

lemma length_overlay_prior_distinct:
  "distinct (map ep_id prior) \<Longrightarrow> length (overlay [] prior) = length prior"
  by (metis length_overlay_prior distinct_card length_map set_map)

lemma length_update_present: "k \<in> fst ` set m \<Longrightarrow> length (AList.update k v m) = length m"
  by (induction m) auto

lemma length_update_fresh: "k \<notin> fst ` set m \<Longrightarrow> length (AList.update k v m) = length m + 1"
  by (induction m) auto

lemma update_unique:
  assumes "distinct (map fst m)" "(k, w) \<in> set (AList.update k v m)"
  shows "w = v"
proof -
  have "distinct (map fst (AList.update k v m))" using assms(1) by (rule distinct_update)
  then have "map_of (AList.update k v m) k = Some w" using assms(2) by simp
  then show ?thesis by (simp add: update_conv')
qed

subsection \<open>The written episode list\<close>

lemma set_sort_newest_first: "set (sort_newest_first xs) = set xs"
  by (simp add: sort_newest_first_def)

lemma length_sort_newest_first: "length (sort_newest_first xs) = length xs"
  by (simp add: sort_newest_first_def)

lemma set_mergedEpisodes_Some:
  "set (mergedEpisodes (Some prior) incoming) = snd ` set (overlay (overlay [] prior) incoming)"
  by (simp add: mergedEpisodes_def unsortedEpisodes_def set_sort_newest_first values_of_def
      existingMap_merge)

lemma length_mergedEpisodes_Some:
  "length (mergedEpisodes (Some prior) incoming) = length (overlay (overlay [] prior) incoming)"
  by (simp add: mergedEpisodes_def unsortedEpisodes_def length_sort_newest_first values_of_def
      existingMap_merge)

lemma sorted_desc: "sorted_wrt (\<lambda>a b. ep_date b \<le> ep_date a) (sort_newest_first xs)"
proof -
  have "sorted (map (\<lambda>e. - ep_date e) (sort_key (\<lambda>e. - ep_date e) xs))"
    by (rule sorted_sort_key)
  then show ?thesis
    by (simp add: sort_newest_first_def sorted_wrt_map)
qed

lemma stable_desc:
  "filter (\<lambda>e. ep_date e = t) (sort_newest_first xs) = filter (\<lambda>e. ep_date e = t) xs"
proof -
  have "filter (\<lambda>e. - ep_date e = - t) (sort_key (\<lambda>e. - ep_date e) xs)
      = filter (\<lambda>e. - ep_date e = - t) xs"
    by (rule sort_key_stable)
  then show ?thesis by (simp add: sort_newest_first_def)
qed

lemma merged_single_member: "e \<in> set (mergedEpisodes (Some prior) [e])"
proof -
  have "(ep_id e, e) \<in> set (overlay (overlay [] prior) [e])"
    by (simp add: overlay_Cons overlay_Nil update_member)
  then have "e \<in> snd ` set (overlay (overlay [] prior) [e])" by force
  then show ?thesis by (simp add: set_mergedEpisodes_Some)
qed

lemma merged_single_unique:
  assumes "x \<in> set (mergedEpisodes (Some prior) [e])" "ep_id x = ep_id e"
  shows "x = e"
proof -
  let ?m = "overlay [] prior"
  from assms(1) obtain k where kx: "(k, x) \<in> set (AList.update (ep_id e) e ?m)"
    by (auto simp: set_mergedEpisodes_Some overlay_Cons overlay_Nil)
  have "\<forall>(k, v)\<in>set (overlay ?m [e]). k = ep_id v"
    by (rule overlay_id_inv, rule overlay_id_inv) simp
  with kx have "k = ep_id x" by (auto simp: overlay_Cons overlay_Nil)
  with kx assms(2) have "(ep_id e, x) \<in> set (AList.update (ep_id e) e ?m)" by simp
  moreover have "distinct (map fst ?m)" by (simp add: overlay_distinct)
  ultimately show ?thesis by (rule update_unique [rotated])
qed

lemma length_merged_single_present:
  "ep_id e \<in> ep_id ` set prior \<Longrightarrow>
   length (mergedEpisodes (Some prior) [e]) = card (ep_id ` set prior)"
  by (simp add: length_mergedEpisodes_Some overlay_Cons overlay_Nil length_update_present
      overlay_keys length_overlay_prior)

lemma length_merged_single_fresh:
  "ep_id e \<notin> ep_id ` set prior \<Longrightarrow>
   length (mergedEpisodes (Some prior) [e]) = card (ep_id ` set prior) + 1"
  by (simp add: length_mergedEpisodes_Some overlay_Cons overlay_Nil length_update_fresh
      overlay_keys length_overlay_prior)

lemma addedCount_load: "addedCount (foldl load_existing s xs) = addedCount s"
  by (induction xs arbitrary: s) (simp_all add: load_existing_def)

subsection \<open>Order of the written list\<close>

text \<open>
  Claim C9. After every \<^verbatim>\<open>saveData\<close>, whatever the episodes file held before and in
  whatever order the incoming episodes come, the written episode list is sorted by date,
  newest first, and episodes of equal date keep the order they had in the array that was
  sorted (the values of the map in insertion order, or the incoming array when there was
  no file).
\<close>

theorem saveData_sorted_newest_first:
  "\<exists>f. episodes_json (saveData le st providerName data) = Some f
     \<and> sorted_wrt (\<lambda>a b. ep_date b \<le> ep_date a) (episodes f)
     \<and> (\<forall>t. filter (\<lambda>e. ep_date e = t) (episodes f)
            = filter (\<lambda>e. ep_date e = t)
                (unsortedEpisodes (map_option episodes (episodes_json st)) (pd_episodes data)))"
  by (simp add: saveData_def saveToEpisodes_def mergedEpisodes_def sorted_desc stable_desc)

subsection \<open>Episodes that a merge leaves alone\<close>

text \<open>
  The branch for an existing file keeps the last entry of each id of the prior store when
  that id is not incoming.
\<close>

lemma merge_keeps_last_prior_entry:
  assumes "prior = xs @ e # ys"
    and "ep_id e \<notin> ep_id ` set ys"
    and "ep_id e \<notin> ep_id ` set incoming"
  shows "e \<in> set (episodes (saveToEpisodes (Some prior) incoming))"
proof -
  have "(ep_id e, e) \<in> set (AList.update (ep_id e) e (overlay [] xs))"
    by (rule update_member)
  then have "(ep_id e, e) \<in> set (overlay (AList.update (ep_id e) e (overlay [] xs)) ys)"
    using assms(2) by (rule overlay_keeps)
  then have "(ep_id e, e) \<in> set (overlay [] prior)"
    by (simp add: assms(1) overlay_append overlay_Cons)
  then have "(ep_id e, e) \<in> set (overlay (overlay [] prior) incoming)"
    using assms(3) by (rule overlay_keeps)
  then have "e \<in> snd ` set (overlay (overlay [] prior) incoming)" by force
  then show ?thesis by (simp add: saveToEpisodes_def set_mergedEpisodes_Some)
qed

text \<open>With pairwise distinct ids in the prior store, every episode whose id is not incoming stays.\<close>

lemma merge_keeps_distinct_prior:
  assumes "distinct (map ep_id prior)" "e \<in> set prior" "ep_id e \<notin> ep_id ` set incoming"
  shows "e \<in> set (mergedEpisodes (Some prior) incoming)"
proof -
  from assms(2) obtain xs ys where split: "prior = xs @ e # ys"
    by (auto simp: in_set_conv_decomp)
  with assms(1) have "ep_id e \<notin> ep_id ` set ys" by auto
  have "(ep_id e, e) \<in> set (AList.update (ep_id e) e (overlay [] xs))"
    by (rule update_member)
  then have "(ep_id e, e) \<in> set (overlay (AList.update (ep_id e) e (overlay [] xs)) ys)"
    using \<open>ep_id e \<notin> ep_id ` set ys\<close> by (rule overlay_keeps)
  then have "(ep_id e, e) \<in> set (overlay [] prior)"
    by (simp add: split overlay_append overlay_Cons)
  then have "(ep_id e, e) \<in> set (overlay (overlay [] prior) incoming)"
    using assms(3) by (rule overlay_keeps)
  then have "e \<in> snd ` set (overlay (overlay [] prior) incoming)" by force
  then show ?thesis by (simp add: set_mergedEpisodes_Some)
qed

text \<open>The branch for an existing file writes pairwise distinct ids, whatever it is given.\<close>

lemma distinct_map_sort_key: "distinct (map f (sort_key g xs)) = distinct (map f xs)"
  by (simp add: distinct_map)

lemma existing_file_writes_distinct_ids:
  "distinct (map ep_id (mergedEpisodes (Some prior) incoming))"
proof -
  let ?m = "overlay (overlay [] prior) incoming"
  have inv: "\<forall>(k, v)\<in>set ?m. k = ep_id v"
    by (rule overlay_id_inv, rule overlay_id_inv) simp
  then have eq: "map ep_id (map snd ?m) = map fst ?m" by auto
  have d: "distinct (map ep_id (map snd ?m))"
    unfolding eq by (simp add: overlay_distinct)
  have "distinct (map ep_id (sort_newest_first (map snd ?m)))"
    using d by (simp only: sort_newest_first_def distinct_map_sort_key)
  then show ?thesis
    by (simp add: mergedEpisodes_def unsortedEpisodes_def values_of_def existingMap_merge)
qed

text \<open>
  Claim C10. A merge is claimed to leave every stored episode whose id is not incoming in
  the written store, unchanged. Two runs of the program show otherwise. In the first run
  there is no episodes file, and the feed of provider \<open>p\<close> has two items with one id: the
  branch for a missing file sorts the incoming array without going through the map, and
  both are stored. In the second run provider \<open>q\<close> brings one episode: the first of the
  two stored episodes, whose id is not incoming, is not in the written store.
\<close>

theorem second_run_drops_stored_episode:
  "episodes (saveToEpisodes None
      [example_episode ''x'' ''p'' ''B'' 1, example_episode ''x'' ''p'' ''A'' 2]) = dup_store
   \<and> example_episode ''x'' ''p'' ''A'' 2 \<in> set dup_store
   \<and> ep_id (example_episode ''x'' ''p'' ''A'' 2) \<notin> ep_id ` set [example_episode ''y'' ''q'' ''C'' 3]
   \<and> example_episode ''x'' ''p'' ''A'' 2
       \<notin> set (episodes (saveToEpisodes (Some dup_store) [example_episode ''y'' ''q'' ''C'' 3]))"
  by (simp add: dup_store_def saveToEpisodes_def mergedEpisodes_def unsortedEpisodes_def
      merge_episodes_def add_or_update_def load_existing_def example_episode_def values_of_def
      sort_newest_first_def has_def)

subsection \<open>Merging into an existing file\<close>

text \<open>
  What the branch for an existing file does with one incoming episode \<open>e\<close>:
  \<^item> if the id of \<open>e\<close> is in the prior store, the written store holds \<open>e\<close>, holds no other
    episode with that id, and is no longer than the prior store; the counter
    \<^verbatim>\<open>addedCount\<close> stays 0;
  \<^item> if the id of \<open>e\<close> is fresh, the written store holds \<open>e\<close> as the only episode with that
    id, \<^verbatim>\<open>addedCount\<close> is 1, and the written store has one entry more than there are
    distinct ids in the prior store; when the ids of the prior store are pairwise
    distinct, that is one entry more than the prior store.
\<close>

lemma merge_single_episode:
  "(ep_id e \<in> ep_id ` set prior \<longrightarrow>
      e \<in> set (episodes (saveToEpisodes (Some prior) [e]))
      \<and> (\<forall>x\<in>set (episodes (saveToEpisodes (Some prior) [e])). ep_id x = ep_id e \<longrightarrow> x = e)
      \<and> length (episodes (saveToEpisodes (Some prior) [e])) \<le> length prior
      \<and> addedCount (merge_episodes (Some prior) [e]) = 0)
   \<and> (ep_id e \<notin> ep_id ` set prior \<longrightarrow>
      e \<in> set (episodes (saveToEpisodes (Some prior) [e]))
      \<and> (\<forall>x\<in>set (episodes (saveToEpisodes (Some prior) [e])). ep_id x = ep_id e \<longrightarrow> x = e)
      \<and> length (episodes (saveToEpisodes (Some prior) [e])) = card (ep_id ` set prior) + 1
      \<and> addedCount (merge_episodes (Some prior) [e]) = 1
      \<and> (distinct (map ep_id prior) \<longrightarrow>
           length (episodes (saveToEpisodes (Some prior) [e])) = length prior + 1))"
proof -
  have mem: "e \<in> set (episodes (saveToEpisodes (Some prior) [e]))"
    by (simp add: saveToEpisodes_def merged_single_member)
  have uniq: "\<forall>x\<in>set (episodes (saveToEpisodes (Some prior) [e])). ep_id x = ep_id e \<longrightarrow> x = e"
    by (simp add: saveToEpisodes_def merged_single_unique)
  have len_present: "length (episodes (saveToEpisodes (Some prior) [e])) \<le> length prior"
    if "ep_id e \<in> ep_id ` set prior"
    using that length_overlay_prior_le [of prior]
    by (simp add: saveToEpisodes_def length_merged_single_present length_overlay_prior)
  have len_fresh:
    "length (episodes (saveToEpisodes (Some prior) [e])) = card (ep_id ` set prior) + 1"
    if "ep_id e \<notin> ep_id ` set prior"
    using that by (simp add: saveToEpisodes_def length_merged_single_fresh)
  have len_distinct: "card (ep_id ` set prior) = length prior" if "distinct (map ep_id prior)"
    using that length_overlay_prior_distinct [of prior] by (simp add: length_overlay_prior)
  have added: "addedCount (merge_episodes (Some prior) [e])
      = (if ep_id e \<in> ep_id ` set prior then 0 else 1)"
    by (simp add: merge_episodes_def add_or_update_def addedCount_load has_def existingMap_load
        overlay_keys)
  show ?thesis using mem uniq len_present len_fresh len_distinct added by simp
qed

text \<open>
  Instances: an episode with a stored id replaces the stored one, and an episode with a
  fresh id makes a store of two episodes one of three.
\<close>

lemma merge_single_episode_instances:
  "ep_id (example_episode ''b'' ''p'' ''B2'' 5) \<in> ep_id ` set two_store
   \<and> example_episode ''b'' ''p'' ''B2'' 5
       \<in> set (episodes (saveToEpisodes (Some two_store) [example_episode ''b'' ''p'' ''B2'' 5]))
   \<and> length (episodes (saveToEpisodes (Some two_store) [example_episode ''b'' ''p'' ''B2'' 5]))
       \<le> length two_store
   \<and> ep_id (example_episode ''c'' ''q'' ''C'' 3) \<notin> ep_id ` set two_store
   \<and> distinct (map ep_id two_store)
   \<and> length (episodes (saveToEpisodes (Some two_store) [example_episode ''c'' ''q'' ''C'' 3]))
       = length two_store + 1"
  using merge_single_episode [of "example_episode ''b'' ''p'' ''B2'' 5" two_store]
    merge_single_episode [of "example_episode ''c'' ''q'' ''C'' 3" two_store]
  by (simp add: two_store_def example_episode_def)

text \<open>
  For a list of incoming episodes the last one with a given id is the one stored, and it
  is the only stored episode with that id.
\<close>

lemma keyed_unique:
  assumes "distinct (map fst m)" "\<forall>(k, v)\<in>set m. k = ep_id v"
    and "(k, e) \<in> set m" "(k', x) \<in> set m" "ep_id x = ep_id e"
  shows "x = e"
proof -
  from assms(2,3) have "k = ep_id e" by fastforce
  moreover from assms(2,4) have "k' = ep_id x" by fastforce
  ultimately have "k' = k" using assms(5) by simp
  with assms(1,3,4) show ?thesis by (metis map_of_is_SomeI option.inject)
qed

lemma merge_last_write_wins:
  assumes "incoming = xs @ e # ys" "ep_id e \<notin> ep_id ` set ys"
  shows "e \<in> set (mergedEpisodes (Some prior) incoming)
       \<and> (\<forall>x\<in>set (mergedEpisodes (Some prior) incoming). ep_id x = ep_id e \<longrightarrow> x = e)"
proof -
  let ?m = "overlay (overlay [] prior) incoming"
  have "(ep_id e, e) \<in> set (AList.update (ep_id e) e (overlay (overlay [] prior) xs))"
    by (rule update_member)
  then have "(ep_id e, e) \<in> set (overlay (AList.update (ep_id e) e (overlay (overlay [] prior) xs)) ys)"
    using assms(2) by (rule overlay_keeps)
  then have mem: "(ep_id e, e) \<in> set ?m"
    by (simp add: assms(1) overlay_append overlay_Cons)
  have dist: "distinct (map fst ?m)" by (simp add: overlay_distinct)
  have inv: "\<forall>(k, v)\<in>set ?m. k = ep_id v"
    by (rule overlay_id_inv, rule overlay_id_inv) simp
  have "x = e" if "x \<in> snd ` set ?m" "ep_id x = ep_id e" for x
  proof -
    from that(1) obtain k' where "(k', x) \<in> set ?m" by auto
    with dist inv mem show ?thesis using that(2) by (rule keyed_unique)
  qed
  moreover from mem have "e \<in> snd ` set ?m" by force
  ultimately show ?thesis by (simp add: set_mergedEpisodes_Some)
qed

subsection \<open>Merging without a file\<close>

text \<open>
  Claim C8. An incoming episode whose id is already in the store is claimed to overwrite
  the stored entry, the number of episodes not increasing, and an episode with a fresh id
  to add exactly one entry. When there is no episodes file and two incoming episodes have
  one id, both are written, under one id, and the count is 2: the branch for a missing
  file sorts the incoming array and does not go through the map. The branch for an
  existing file, given an empty store and the same episodes, writes the later one only.
  In the next run an episode with a fresh id, merged into the store of two, gives a store
  of two again: it takes the place of the entry that the map drops.
\<close>

theorem missing_file_branch_keeps_both:
  "ep_id (example_episode ''x'' ''p'' ''B'' 1) = ep_id (example_episode ''x'' ''p'' ''A'' 2)
   \<and> episodes (saveToEpisodes None
        [example_episode ''x'' ''p'' ''B'' 1, example_episode ''x'' ''p'' ''A'' 2])
       = [example_episode ''x'' ''p'' ''A'' 2, example_episode ''x'' ''p'' ''B'' 1]
   \<and> total_episodes (saveToEpisodes None
        [example_episode ''x'' ''p'' ''B'' 1, example_episode ''x'' ''p'' ''A'' 2]) = 2
   \<and> episodes (saveToEpisodes (Some [])
        [example_episode ''x'' ''p'' ''B'' 1, example_episode ''x'' ''p'' ''A'' 2])
       = [example_episode ''x'' ''p'' ''A'' 2]
   \<and> ep_id (example_episode ''y'' ''q'' ''C'' 3) \<notin> ep_id ` set dup_store
   \<and> length (episodes (saveToEpisodes (Some dup_store) [example_episode ''y'' ''q'' ''C'' 3]))
       = length dup_store"
  by (simp add: dup_store_def saveToEpisodes_def mergedEpisodes_def unsortedEpisodes_def
      merge_episodes_def add_or_update_def load_existing_def example_episode_def values_of_def
      sort_newest_first_def has_def)

subsection \<open>The channel record\<close>

lemma set_insert_by: "set (insert_by le x ys) = insert x (set ys)"
  by (induction ys) auto

lemma set_sort_by: "set (sort_by le xs) = set xs"
  by (induction xs) (simp_all add: sort_by_def set_insert_by)

lemma chan_fold_distinct:
  "distinct (map fst m) \<Longrightarrow>
   distinct (map fst (foldl (\<lambda>m ch. AList.update (ch_id ch) ch m) m xs))"
  by (induction xs arbitrary: m) (simp_all add: distinct_update)

lemma chan_fold_inv:
  "(\<forall>(k, v)\<in>set m. k = ch_id v) \<Longrightarrow>
   (\<forall>(k, v)\<in>set (foldl (\<lambda>m ch. AList.update (ch_id ch) ch m) m xs). k = ch_id v)"
proof (induction xs arbitrary: m)
  case Nil
  then show ?case by simp
next
  case (Cons x xs)
  have "\<forall>(k, v)\<in>set (AList.update (ch_id x) x m). k = ch_id v"
    using Cons.prems update_set_subset [of "ch_id x" x m] by auto
  then show ?case using Cons.IH by simp
qed

lemma saveToChannels_entry:
  "ch\<lparr>ch_total_episodes := n\<rparr> \<in> set (channels (saveToChannels le existingData ch n))
   \<and> (\<forall>c\<in>set (channels (saveToChannels le existingData ch n)).
         ch_id c = ch_id ch \<longrightarrow> c = ch\<lparr>ch_total_episodes := n\<rparr>)"
proof (cases existingData)
  case None
  then show ?thesis by (simp add: saveToChannels_def Let_def)
next
  case (Some existing)
  let ?c = "ch\<lparr>ch_total_episodes := n\<rparr>"
  let ?m = "foldl (\<lambda>m ch. AList.update (ch_id ch) ch m) [] existing"
  have chans: "set (channels (saveToChannels le existingData ch n))
      = snd ` set (AList.update (ch_id ch) ?c ?m)"
    by (simp add: Some saveToChannels_def Let_def set_sort_by values_of_def)
  have dist: "distinct (map fst ?m)" by (rule chan_fold_distinct) simp
  have inv: "\<forall>(k, v)\<in>set ?m. k = ch_id v" by (rule chan_fold_inv) simp
  have "(ch_id ch, ?c) \<in> set (AList.update (ch_id ch) ?c ?m)" by (rule update_member)
  then have mem: "?c \<in> snd ` set (AList.update (ch_id ch) ?c ?m)" by force
  have uniq: "c = ?c" if "c \<in> snd ` set (AList.update (ch_id ch) ?c ?m)" "ch_id c = ch_id ch" for c
  proof -
    from that(1) obtain k where kc: "(k, c) \<in> set (AList.update (ch_id ch) ?c ?m)" by auto
    have "k = ch_id c"
      using kc inv update_set_subset [of "ch_id ch" ?c ?m] by auto
    with kc that(2) have "(ch_id ch, c) \<in> set (AList.update (ch_id ch) ?c ?m)" by simp
    with dist show ?thesis by (rule update_unique)
  qed
  show ?thesis using mem uniq by (simp add: chans)
qed

text \<open>
  Claim C1, as amended. After \<^verbatim>\<open>saveData\<close> with a dataset that carries a channel, the
  channels file holds that channel with \<^verbatim>\<open>total_episodes\<close> set to the length of the
  incoming episode list, and holds no other channel with its id.
\<close>

theorem saveData_channel_total_is_incoming_count:
  assumes "pd_channelInfo data = Some ch"
  shows "\<exists>cd. channels_json (saveData le st providerName data) = Some cd
     \<and> ch\<lparr>ch_total_episodes := length (pd_episodes data)\<rparr> \<in> set (channels cd)
     \<and> (\<forall>c\<in>set (channels cd). ch_id c = ch_id ch \<longrightarrow>
           c = ch\<lparr>ch_total_episodes := length (pd_episodes data)\<rparr>)"
  using assms saveToChannels_entry [where ch = ch and n = "length (pd_episodes data)" and le = le
      and existingData = "map_option channels (channels_json st)"]
  by (simp add: saveData_def)

text \<open>An instance: the run of the truncated feed writes the channel with a count of 1.\<close>

theorem saveData_channel_total_is_incoming_count_witness:
  "pd_channelInfo truncated_feed_data = Some (example_channel ''p'' ''P'')
   \<and> (\<exists>cd. channels_json (saveData (\<le>) truncated_feed_store ''p'' truncated_feed_data) = Some cd
        \<and> (example_channel ''p'' ''P'')\<lparr>ch_total_episodes := 1\<rparr> \<in> set (channels cd))"
  using saveData_channel_total_is_incoming_count
    [of truncated_feed_data "example_channel ''p'' ''P''" "(\<le>)" truncated_feed_store "''p''"]
  by (auto simp add: truncated_feed_data_def)

text \<open>
  Claim C1 as stated fails: after the run of the truncated feed the merged store holds two
  episodes of provider \<open>p\<close>, and the channel record of \<open>p\<close> says 1.
\<close>

theorem saveData_channel_total_counterexample:
  "channel_totals ''p''
     (channels (the (channels_json (saveData (\<le>) truncated_feed_store ''p'' truncated_feed_data))))
     = [1]
   \<and> provider_count ''p''
       (episodes (the (episodes_json (saveData (\<le>) truncated_feed_store ''p'' truncated_feed_data))))
     = 2"
  by (simp add: saveData_def truncated_feed_store_def truncated_feed_data_def saveToChannels_def
      saveToEpisodes_def mergedEpisodes_def unsortedEpisodes_def merge_episodes_def
      add_or_update_def load_existing_def example_episode_def example_channel_def values_of_def
      sort_newest_first_def has_def channel_totals_def provider_count_def Let_def)
section \<open>Properties of the validator and the scheduler\<close>

declare attempt_loop.simps [simp del]

declare batch_loop.simps [simp del]

declare batch_trace.simps [simp del]


subsection \<open>One probe\<close>

lemma attempt_loop_stop:
  assumes "a \<le> k" "k \<le> retries" "\<forall>i. a \<le> i \<and> i < k \<longrightarrow> retryable (net i)"
    and "net k = Response 200 \<and> r \<or> net k = Response 404 \<and> \<not> r \<or> k = retries \<and> retryable (net k) \<and> \<not> r"
  shows "attempt_loop net retries a = (r, spec_schedule_from a k)"
  using assms
proof (induction "k - a" arbitrary: a)
  case 0
  then have ak: "a = k" by simp
  have "spec_schedule_from k k = [Head k]" by (simp add: spec_schedule_from_def)
  then show ?case using 0 ak
    by (subst attempt_loop.simps) (auto simp: retryable_def split: outcome.splits)
next
  case (Suc d)
  then have lt: "a < k" "a < retries" "a \<le> retries" by auto
  from Suc.prems lt have ra: "retryable (net a)" by auto
  have d: "d = k - (a + 1)" using Suc.hyps by simp
  have rest: "attempt_loop net retries (a + 1) = (r, spec_schedule_from (a + 1) k)"
    using Suc.hyps(1) [OF d] Suc.prems lt by auto
  have sched: "spec_schedule_from a k = Head a # Sleep (a * 1000) # spec_schedule_from (a + 1) k"
    using lt(1) by (simp add: spec_schedule_from_def upt_conv_Cons)
  show ?case using ra lt rest sched
    by (subst attempt_loop.simps) (auto simp: retryable_def after_delay_def split: outcome.splits)
qed

text \<open>
  Claim C3. Let \<open>1 \<le> k \<le> retries\<close>, every attempt before attempt \<open>k\<close> having given
  another status than 200 and 404 or having thrown. For a url that is not empty: if
  attempt \<open>k\<close> gives 200 the result is \<open>True\<close>, if it gives 404 the result is \<open>False\<close>,
  and if \<open>k\<close> is the last attempt and gives neither the result is \<open>False\<close>; in each
  case the probe made attempts \<open>1\<close> to \<open>k\<close> and no other, and paused \<open>i\<close> seconds after
  attempt \<open>i\<close> for each \<open>i < k\<close>. For the empty url no attempt is made and the result
  is \<open>False\<close>.
\<close>

theorem validateMp3Url_policy:
  assumes "1 \<le> k" "k \<le> retries"
    and "\<forall>i. 1 \<le> i \<and> i < k \<longrightarrow> retryable (net i)"
  shows "(url \<noteq> [] \<and> net k = Response 200 \<longrightarrow>
            validateMp3Url net url retries = (True, spec_schedule k))
       \<and> (url \<noteq> [] \<and> net k = Response 404 \<longrightarrow>
            validateMp3Url net url retries = (False, spec_schedule k))
       \<and> (url \<noteq> [] \<and> k = retries \<and> retryable (net k) \<longrightarrow>
            validateMp3Url net url retries = (False, spec_schedule k))
       \<and> (url = [] \<longrightarrow> validateMp3Url net url retries = (False, []))"
  using assms attempt_loop_stop [of 1 k retries net True]
    attempt_loop_stop [of 1 k retries net False]
  by (auto simp: validateMp3Url_def spec_schedule_def)

text \<open>An instance: 500, a throw, then 200, with three attempts allowed.\<close>

theorem validateMp3Url_policy_witness:
  "''u'' \<noteq> [] \<and> (1::nat) \<le> 3 \<and> (3::nat) \<le> 3
   \<and> retryable (flaky_then_ok 1) \<and> retryable (flaky_then_ok 2)
   \<and> flaky_then_ok 3 = Response 200
   \<and> validateMp3Url flaky_then_ok ''u'' 3
       = (True, [Head 1, Sleep 1000, Head 2, Sleep 2000, Head 3])"
proof -
  have r1: "retryable (flaky_then_ok 1)" and r2: "retryable (flaky_then_ok 2)"
    by (simp_all add: flaky_then_ok_def retryable_def)
  have r: "\<forall>i. 1 \<le> i \<and> i < 3 \<longrightarrow> retryable (flaky_then_ok i)"
  proof (intro allI impI)
    fix i :: nat
    assume "1 \<le> i \<and> i < 3"
    then have "i = 1 \<or> i = 2" by auto
    with r1 r2 show "retryable (flaky_then_ok i)" by auto
  qed
  have s: "spec_schedule 3 = [Head 1, Sleep 1000, Head 2, Sleep 2000, Head 3]"
    by (simp add: spec_schedule_def spec_schedule_from_def upt_conv_Cons)
  have "validateMp3Url flaky_then_ok ''u'' 3 = (True, spec_schedule 3)"
    using validateMp3Url_policy [where url = "''u''" and k = 3 and retries = 3
        and net = flaky_then_ok] r
    by (simp add: flaky_then_ok_def)
  with r1 r2 s show ?thesis by (simp add: flaky_then_ok_def)
qed

lemma attempt_loop_always_thrown:
  "fst (attempt_loop (\<lambda>a. Thrown) retries attempt) = False"
proof (induction "Suc retries - attempt" arbitrary: attempt)
  case 0
  then show ?case by (subst attempt_loop.simps) simp
next
  case (Suc d)
  then have "d = Suc retries - (attempt + 1)" by simp
  then have "fst (attempt_loop (\<lambda>a. Thrown) retries (attempt + 1)) = False" by (rule Suc.hyps(1))
  then show ?case by (subst attempt_loop.simps) (simp add: after_delay_def)
qed

lemma attempt_loop_all_thrown:
  assumes "\<forall>a. net a = Thrown"
  shows "fst (attempt_loop net retries attempt) = False"
proof -
  from assms have "net = (\<lambda>a. Thrown)" by (simp add: fun_eq_iff)
  then show ?thesis by (simp add: attempt_loop_always_thrown)
qed

lemma validateMp3Url_all_thrown:
  "(\<forall>a. net a = Thrown) \<Longrightarrow> fst (validateMp3Url net url retries) = False"
  by (simp add: validateMp3Url_def attempt_loop_all_thrown)

lemma validateMp3Url_empty: "validateMp3Url net [] retries = (False, [])"
  by (simp add: validateMp3Url_def)

lemma attempt_loop_cong_net:
  "(\<forall>a. net' a = net a) \<Longrightarrow> attempt_loop net' retries attempt = attempt_loop net retries attempt"
proof -
  assume "\<forall>a. net' a = net a"
  then have "net' = net" by (simp add: fun_eq_iff)
  then show ?thesis by simp
qed

subsection \<open>The window loop\<close>

lemma zip_upt_map: "k \<le> length bs \<Longrightarrow> zip bs [0..<k] = map (\<lambda>idx. (bs ! idx, idx)) [0..<k]"
  by (rule nth_equalityI) auto

lemma store_results:
  assumes "k \<le> n"
  shows "foldl (\<lambda>res (isValid, idx). res[map (\<lambda>idx. i + idx) [0..<n] ! idx := isValid]) res
           (map (\<lambda>idx. (bs ! idx, idx)) [0..<k])
         = map (\<lambda>j. if i \<le> j \<and> j < i + k then bs ! (j - i) else res ! j) [0..<length res]"
  using assms
proof (induction k)
  case 0
  show ?case by (rule nth_equalityI) auto
next
  case (Suc k)
  then have kn: "k < n" "k \<le> n" by auto
  let ?old = "map (\<lambda>j. if i \<le> j \<and> j < i + k then bs ! (j - i) else res ! j) [0..<length res]"
  have "foldl (\<lambda>res (isValid, idx). res[map (\<lambda>idx. i + idx) [0..<n] ! idx := isValid]) res
           (map (\<lambda>idx. (bs ! idx, idx)) [0..<Suc k]) = ?old[i + k := bs ! k]"
    using kn Suc.IH by simp
  also have "\<dots> = map (\<lambda>j. if i \<le> j \<and> j < i + Suc k then bs ! (j - i) else res ! j)
                       [0..<length res]"
  proof (rule nth_equalityI)
    show "length (?old[i + k := bs ! k])
        = length (map (\<lambda>j. if i \<le> j \<and> j < i + Suc k then bs ! (j - i) else res ! j)
                    [0..<length res])"
      by simp
  next
    fix j
    assume "j < length (?old[i + k := bs ! k])"
    then have j: "j < length res" by simp
    show "?old[i + k := bs ! k] ! j
        = map (\<lambda>j. if i \<le> j \<and> j < i + Suc k then bs ! (j - i) else res ! j)
            [0..<length res] ! j"
    proof (cases "j = i + k")
      case True
      with j show ?thesis by simp
    next
      case False
      with j show ?thesis by (auto simp: nth_list_update)
    qed
  qed
  finally show ?case .
qed

lemma window_zip:
  "zip (map (\<lambda>idx. i + idx) [0..<length (take B (drop i urls))]) (take B (drop i urls))
   = map (\<lambda>j. (j, urls ! j)) [i..<min (i + B) (length urls)]"
proof (rule nth_equalityI)
  show "length (zip (map (\<lambda>idx. i + idx) [0..<length (take B (drop i urls))]) (take B (drop i urls)))
      = length (map (\<lambda>j. (j, urls ! j)) [i..<min (i + B) (length urls)])"
    by (auto simp: min_def)
next
  fix k
  assume "k < length (zip (map (\<lambda>idx. i + idx) [0..<length (take B (drop i urls))])
                        (take B (drop i urls)))"
  then have k: "k < B" "i + k < length urls" by auto
  then have "k < min (i + B) (length urls) - i" by (auto simp: min_def)
  with k show "zip (map (\<lambda>idx. i + idx) [0..<length (take B (drop i urls))]) (take B (drop i urls)) ! k
      = map (\<lambda>j. (j, urls ! j)) [i..<min (i + B) (length urls)] ! k"
    by simp
qed

lemma zip_shifted_upt:
  "zip (map (\<lambda>idx. i + idx) [0..<m - i]) (map f [i..<m]) = map (\<lambda>j. (j, f j)) [i..<(m::nat)]"
proof (rule nth_equalityI)
  show "length (zip (map (\<lambda>idx. i + idx) [0..<m - i]) (map f [i..<m])) = length (map (\<lambda>j. (j, f j)) [i..<m])"
    by simp
next
  fix k
  assume "k < length (zip (map (\<lambda>idx. i + idx) [0..<m - i]) (map f [i..<m]))"
  then have "k < m - i" by simp
  then have "i + k < m" by simp
  then show "zip (map (\<lambda>idx. i + idx) [0..<m - i]) (map f [i..<m]) ! k = map (\<lambda>j. (j, f j)) [i..<m] ! k"
    using \<open>k < m - i\<close> by simp
qed

lemma window_length: "length (take B (drop i urls)) = min (i + B) (length urls) - i"
  by (auto simp: min_def)

lemma batch_loop_step:
  assumes "i < length urls" "length res = length urls"
  shows "batch_loop net urls i (res, ws)
       = batch_loop net urls (i + BATCH_SIZE)
           (map (\<lambda>j. if i \<le> j \<and> j < i + BATCH_SIZE then probe_result net urls j else res ! j)
              [0..<length urls],
            ws @ [map (\<lambda>j. (j, probe_events net urls j)) [i..<min (i + BATCH_SIZE) (length urls)]])"
proof -
  let ?B = BATCH_SIZE
  let ?batch = "take ?B (drop i urls)"
  let ?m = "min (i + ?B) (length urls)"
  let ?idxs = "map (\<lambda>idx. i + idx) [0..<length ?batch]"
  let ?probes = "map (\<lambda>(j, url). validateMp3Url (net j) url 3) (zip ?idxs ?batch)"
  have probes: "?probes = map (\<lambda>j. validateMp3Url (net j) (urls ! j) 3) [i..<?m]"
    by (simp only: window_zip) simp
  have results: "map fst ?probes = map (probe_result net urls) [i..<?m]"
    by (simp only: probes) (simp add: probe_result_def)
  have len: "length (map fst ?probes) = length ?batch"
    by simp
  have events: "zip ?idxs (map snd ?probes) = map (\<lambda>j. (j, probe_events net urls j)) [i..<?m]"
  proof -
    have "zip ?idxs (map snd ?probes)
        = zip (map (\<lambda>idx. i + idx) [0..<?m - i])
            (map snd (map (\<lambda>j. validateMp3Url (net j) (urls ! j) 3) [i..<?m]))"
      by (simp only: probes) (simp only: window_length)
    also have "\<dots> = map (\<lambda>j. (j, probe_events net urls j)) [i..<?m]"
      by (simp only: map_map zip_shifted_upt) (simp add: probe_events_def)
    finally show ?thesis .
  qed
  have "foldl (\<lambda>res (isValid, idx). res[?idxs ! idx := isValid]) res
           (zip (map fst ?probes) [0..<length (map fst ?probes)])
      = foldl (\<lambda>res (isValid, idx). res[?idxs ! idx := isValid]) res
           (map (\<lambda>idx. (map fst ?probes ! idx, idx)) [0..<length ?batch])"
    using zip_upt_map [of "length ?batch" "map fst ?probes"] by (simp only: len)
  also have "\<dots> = map (\<lambda>j. if i \<le> j \<and> j < i + length ?batch
                           then map fst ?probes ! (j - i) else res ! j) [0..<length res]"
    by (rule store_results) simp
  also have "\<dots> = map (\<lambda>j. if i \<le> j \<and> j < i + ?B then probe_result net urls j else res ! j)
                      [0..<length urls]"
  proof (rule nth_equalityI)
    show "length (map (\<lambda>j. if i \<le> j \<and> j < i + length ?batch
                           then map fst ?probes ! (j - i) else res ! j) [0..<length res])
        = length (map (\<lambda>j. if i \<le> j \<and> j < i + ?B then probe_result net urls j else res ! j)
                      [0..<length urls])"
      using assms(2) by simp
  next
    fix j
    assume "j < length (map (\<lambda>j. if i \<le> j \<and> j < i + length ?batch
                           then map fst ?probes ! (j - i) else res ! j) [0..<length res])"
    then have j: "j < length urls" using assms(2) by simp
    have "map fst ?probes ! (j - i) = probe_result net urls j" if "i \<le> j" "j < i + ?B"
    proof -
      from that j have "j - i < length [i..<?m]" by simp
      then have "map (probe_result net urls) [i..<?m] ! (j - i) = probe_result net urls (i + (j - i))"
        by (simp only: nth_map nth_upt length_upt) 
      with that show ?thesis by (simp only: results) simp
    qed
    then show "map (\<lambda>j. if i \<le> j \<and> j < i + length ?batch
                           then map fst ?probes ! (j - i) else res ! j) [0..<length res] ! j
        = map (\<lambda>j. if i \<le> j \<and> j < i + ?B then probe_result net urls j else res ! j)
                      [0..<length urls] ! j"
      using j assms(2) by (auto simp: window_length min_def)
  qed
  finally have stored:
    "foldl (\<lambda>res (isValid, idx). res[?idxs ! idx := isValid]) res
           (zip (map fst ?probes) [0..<length (map fst ?probes)])
     = map (\<lambda>j. if i \<le> j \<and> j < i + ?B then probe_result net urls j else res ! j)
           [0..<length urls]" .
  show ?thesis
    using assms(1)
    by (subst batch_loop.simps) (simp only: Let_def fst_conv snd_conv stored events if_True)
qed

lemma spec_windows_from_step:
  "c * BATCH_SIZE < n \<Longrightarrow>
   spec_windows_from c n
     = [c * BATCH_SIZE ..< min (c * BATCH_SIZE + BATCH_SIZE) n] # spec_windows_from (c + 1) n"
proof -
  assume "c * BATCH_SIZE < n"
  then have "c < (n + (BATCH_SIZE - 1)) div BATCH_SIZE"
    by (simp add: BATCH_SIZE_def)
  then show ?thesis
    by (simp add: spec_windows_from_def BATCH_SIZE_def upt_conv_Cons)
qed

lemma spec_windows_from_done:
  "\<not> c * BATCH_SIZE < n \<Longrightarrow> spec_windows_from c n = []"
proof -
  assume "\<not> c * BATCH_SIZE < n"
  then have "(n + (BATCH_SIZE - 1)) div BATCH_SIZE \<le> c"
    by (simp add: BATCH_SIZE_def)
  then show ?thesis
    by (simp add: spec_windows_from_def BATCH_SIZE_def)
qed

lemma batch_loop_result:
  assumes "length res = length urls" "i = c * BATCH_SIZE"
  shows "batch_loop net urls i (res, ws)
       = (map (\<lambda>j. if i \<le> j then probe_result net urls j else res ! j) [0..<length urls],
          ws @ map (map (\<lambda>j. (j, probe_events net urls j))) (spec_windows_from c (length urls)))"
  using assms
proof (induction "length urls - i" arbitrary: i c res ws rule: less_induct)
  case less
  show ?case
  proof (cases "i < length urls")
    case False
    then have "batch_loop net urls i (res, ws) = (res, ws)"
      by (subst batch_loop.simps) simp
    moreover have "map (\<lambda>j. if i \<le> j then probe_result net urls j else res ! j) [0..<length urls] = res"
      using False less.prems(1) by (intro nth_equalityI) auto
    moreover have "spec_windows_from c (length urls) = []"
      using False less.prems(2) by (simp add: spec_windows_from_done)
    ultimately show ?thesis by simp
  next
    case True
    let ?res = "map (\<lambda>j. if i \<le> j \<and> j < i + BATCH_SIZE then probe_result net urls j else res ! j)
                  [0..<length urls]"
    let ?w = "map (\<lambda>j. (j, probe_events net urls j)) [i..<min (i + BATCH_SIZE) (length urls)]"
    have smaller: "length urls - (i + BATCH_SIZE) < length urls - i"
      using True by (simp add: BATCH_SIZE_def)
    have next_i: "i + BATCH_SIZE = (c + 1) * BATCH_SIZE"
      using less.prems(2) by simp
    have "batch_loop net urls i (res, ws) = batch_loop net urls (i + BATCH_SIZE) (?res, ws @ [?w])"
      using True less.prems(1) by (rule batch_loop_step)
    also have "\<dots> = (map (\<lambda>j. if i + BATCH_SIZE \<le> j then probe_result net urls j else ?res ! j)
                          [0..<length urls],
                       (ws @ [?w]) @ map (map (\<lambda>j. (j, probe_events net urls j)))
                                      (spec_windows_from (c + 1) (length urls)))"
      using less.hyps [OF smaller _ next_i] by simp
    also have "map (\<lambda>j. if i + BATCH_SIZE \<le> j then probe_result net urls j else ?res ! j)
                 [0..<length urls]
             = map (\<lambda>j. if i \<le> j then probe_result net urls j else res ! j) [0..<length urls]"
      by (rule nth_equalityI) auto
    also have "(ws @ [?w]) @ map (map (\<lambda>j. (j, probe_events net urls j)))
                                      (spec_windows_from (c + 1) (length urls))
             = ws @ map (map (\<lambda>j. (j, probe_events net urls j))) (spec_windows_from c (length urls))"
      using True less.prems(2) by (simp add: spec_windows_from_step)
    finally show ?thesis .
  qed
qed

lemma validateMp3UrlsBatch_eq:
  "validateMp3UrlsBatch net urls
   = (map (probe_result net urls) [0..<length urls],
      map (map (\<lambda>j. (j, probe_events net urls j))) (spec_windows (length urls)))"
  using batch_loop_result [of "replicate (length urls) False" urls 0 0 net "[]"]
  by (simp add: validateMp3UrlsBatch_def spec_windows_def)

lemma batch_results_nth:
  "i < length urls \<Longrightarrow>
   fst (validateMp3UrlsBatch net urls) ! i = fst (validateMp3Url (net i) (urls ! i) 3)"
  by (simp add: validateMp3UrlsBatch_eq probe_result_def)

lemma batch_results_length: "length (fst (validateMp3UrlsBatch net urls)) = length urls"
  by (simp add: validateMp3UrlsBatch_eq)


subsection \<open>The order of events\<close>



























text \<open>
  Two probes in one window, both tried twice. The probes overlap: a list in which the
  first probe finishes before the request of the second is made is no possible course.
  Either probe may finish first.
\<close>

lemma probes_overlap:
  "\<not> batch_trace second_attempt_ok [''a'', ''b''] 0
       [(0, Head 1), (0, Sleep 1000), (0, Head 2), (1, Head 1), (1, Sleep 1000), (1, Head 2)]"
  by code_simp

lemma completion_order_is_free:
  "batch_trace second_attempt_ok [''a'', ''b''] 0
     [(0, Head 1), (1, Head 1), (0, Sleep 1000), (0, Head 2), (1, Sleep 1000), (1, Head 2)]
   \<and> batch_trace second_attempt_ok [''a'', ''b''] 0
     [(0, Head 1), (1, Head 1), (1, Sleep 1000), (1, Head 2), (0, Sleep 1000), (0, Head 2)]
   \<and> batch_trace second_attempt_ok [''a'', ''b''] 0
     [(0, Head 1), (1, Head 1), (1, Sleep 1000), (0, Sleep 1000), (0, Head 2), (1, Head 2)]
   \<and> fst (validateMp3UrlsBatch second_attempt_ok [''a'', ''b'']) = [True, True]"
  by code_simp

text \<open>
  Claim C5. Whatever the network does, \<^verbatim>\<open>validateMp3UrlsBatch\<close> returns a result for
  every url; a probe whose every attempt throws gives \<open>False\<close>; and the result at index
  \<open>i\<close> depends on the outcomes of probe \<open>i\<close> only, so that nothing that happens in
  another probe changes it.
\<close>

theorem validateMp3UrlsBatch_isolated:
  "length (fst (validateMp3UrlsBatch net urls)) = length urls
   \<and> (\<forall>j<length urls. (\<forall>a. net j a = Thrown) \<longrightarrow>
         fst (validateMp3UrlsBatch net urls) ! j = False)
   \<and> (\<forall>i<length urls. (\<forall>a. net' i a = net i a) \<longrightarrow>
         fst (validateMp3UrlsBatch net' urls) ! i = fst (validateMp3UrlsBatch net urls) ! i)"
proof -
  have same: "net' i = net i" if "\<forall>a. net' i a = net i a" for i
    using that by (simp add: fun_eq_iff)
  show ?thesis
    by (auto simp: batch_results_nth batch_results_length validateMp3Url_all_thrown same)
qed

text \<open>
  An instance: the middle probe throws at every attempt; its result is \<open>False\<close>, and the
  first probe has the result it has when the middle one is answered 404 instead.
\<close>

theorem validateMp3UrlsBatch_isolated_witness:
  "(1::nat) < length [''u0'', ''u1'', ''u2'']
   \<and> (\<forall>a. middle_crashes 1 a = Thrown)
   \<and> fst (validateMp3UrlsBatch middle_crashes [''u0'', ''u1'', ''u2'']) ! 1 = False
   \<and> (0::nat) < length [''u0'', ''u1'', ''u2'']
   \<and> (\<forall>a. middle_crashes 0 a = middle_is_missing 0 a)
   \<and> fst (validateMp3UrlsBatch middle_crashes [''u0'', ''u1'', ''u2'']) ! 0
       = fst (validateMp3UrlsBatch middle_is_missing [''u0'', ''u1'', ''u2'']) ! 0
   \<and> length (fst (validateMp3UrlsBatch middle_crashes [''u0'', ''u1'', ''u2''])) = 3"
  using validateMp3UrlsBatch_isolated
    [of middle_crashes "[''u0'', ''u1'', ''u2'']" middle_crashes]
    validateMp3UrlsBatch_isolated
    [of middle_is_missing "[''u0'', ''u1'', ''u2'']" middle_crashes]
  by (simp add: middle_crashes_def middle_is_missing_def)

text \<open>The two example runs in full.\<close>

lemma batch_scenario:
  "fst (validateMp3UrlsBatch middle_is_missing [''u0'', ''u1'', ''u2'']) = [True, False, True]"
  by (simp add: validateMp3UrlsBatch_eq probe_result_def validateMp3Url_def middle_is_missing_def
      attempt_loop.simps upt_conv_Cons)

lemma batch_crash_scenario:
  "fst (validateMp3UrlsBatch middle_crashes [''u0'', ''u1'', ''u2'']) = [True, False, True]"
  by (simp add: validateMp3UrlsBatch_eq probe_result_def validateMp3Url_def middle_crashes_def
      attempt_loop.simps after_delay_def upt_conv_Cons)

section \<open>Properties of episode extraction\<close>

subsection \<open>Items that cannot be parsed\<close>

lemma parse_item_error:
  "parse_item Date_parse providerName channelImageUrl (Some item) = Inl e \<Longrightarrow> e = RangeError"
  by (auto simp: parse_item_def Let_def split: option.splits)

lemma parse_undated_item:
  "parse_item Date_parse providerName channelImageUrl (Some undated_item) = Inl RangeError"
  by (simp add: parse_item_def undated_item_def dated_item_def new_Date_def or_else_def
      or_empty_def truthy_def Let_def)

lemma parsedEpisodes_undated:
  "parsedEpisodes Date_parse providerName channelImageUrl (ItemArray (earlier @ undated_item # later))
   = Inl RangeError"
proof -
  let ?f = "parse_item Date_parse providerName channelImageUrl"
  have "map_or_throw ?f (map Some earlier @ Some undated_item # map Some later) = Inl RangeError"
  proof (induction earlier)
    case Nil
    show ?case by (simp add: parse_undated_item)
  next
    case (Cons x xs)
    then show ?case
      by (auto split: sum.splits dest: parse_item_error)
  qed
  then show ?thesis by (simp add: parsedEpisodes_def episodeArray_def)
qed

text \<open>
  Claim C2. Episode extraction is claimed never to fail. For an item without a
  \<^verbatim>\<open>pubDate\<close> element it does: \<^verbatim>\<open>new Date('')\<close> is an invalid date and \<^verbatim>\<open>toISOString\<close>
  throws a \<^verbatim>\<open>RangeError\<close>, whatever the host's date parser, the provider and the other
  fields of the item. The throw leaves \<^verbatim>\<open>extractEpisodes\<close>, so no episode of the feed is
  returned, whether the item is alone or anywhere in an array of items.
\<close>

theorem extractEpisodes_undated_item_throws:
  "parse_item Date_parse providerName channelImageUrl (Some undated_item) = Inl RangeError
   \<and> extractEpisodes Date_parse net providerName existingEpisodeIds (OneItem undated_item)
        channelImageUrl = Inl RangeError
   \<and> extractEpisodes Date_parse net providerName existingEpisodeIds
        (ItemArray (earlier @ undated_item # later)) channelImageUrl = Inl RangeError"
  using parsedEpisodes_undated [of Date_parse providerName channelImageUrl "[]" "[]"]
  by (simp add: parse_undated_item extractEpisodes_def parsedEpisodes_undated)
    (simp add: parsedEpisodes_def episodeArray_def parse_undated_item)

text \<open>A channel without items makes the callback read a property of \<^verbatim>\<open>undefined\<close>.\<close>

lemma extractEpisodes_no_item_throws:
  "extractEpisodes Date_parse net providerName existingEpisodeIds NoItem channelImageUrl
   = Inl TypeError"
  by (simp add: extractEpisodes_def parsedEpisodes_def episodeArray_def parse_item_def)

subsection \<open>The id of an episode\<close>

text \<open>
  The scenario of the specification: episode number 165, a publish date on 2025-11-04,
  provider \<open>darknetdiaries\<close>.
\<close>

lemma parse_dated_item:
  "parse_item example_Date_parse ''darknetdiaries'' ''https://example.com/cover.jpg''
     (Some dated_item) = Inr episode_165"
  by code_simp

lemma parse_episode_zero_item:
  "parse_item example_Date_parse ''darknetdiaries'' ''https://example.com/cover.jpg''
     (Some episode_zero_item)
   = Inr (episode_165\<lparr>ep_id := ''20251104-darknetdiaries-epunknown'',
                      ep_episode_number := Number 0\<rparr>)"
  by code_simp

text \<open>
  Claim C6. The id is claimed to end in the decimal episode number, and in \<open>unknown\<close>
  only when there is no episode number. For the item with \<^verbatim>\<open><itunes:episode>0</itunes:episode>\<close>
  the episode has the episode number 0 and an id that ends in \<open>epunknown\<close>, since
  \<^verbatim>\<open>episodeNumber || 'unknown'\<close> takes 0 for absent.
\<close>

theorem episode_zero_id_says_unknown:
  "\<exists>ep. parse_item example_Date_parse ''darknetdiaries'' ''https://example.com/cover.jpg''
           (Some episode_zero_item) = Inr ep
      \<and> ep_episode_number ep = Number 0
      \<and> ep_id ep = ''20251104-darknetdiaries-epunknown''"
  by (simp add: parse_episode_zero_item)

text \<open>
  The id is a function of the publish date, the provider and the episode number: no other
  field of the item enters it. For an episode number other than 0 it ends in the decimal
  number, and without an episode number in \<open>unknown\<close>.
\<close>

lemma parse_item_id:
  "parse_item Date_parse providerName channelImageUrl (Some item) = Inr ep \<Longrightarrow>
   ep_id ep = episode_id (ep_date ep) providerName (ep_episode_number ep)"
  by (auto simp: parse_item_def Let_def split: option.splits)

lemma episode_id_scenario:
  "episode_id 1762243200000 ''darknetdiaries'' (parseInt ''165'') = ''20251104-darknetdiaries-ep165''"
  by code_simp

lemma episode_label_nonzero: "n \<noteq> 0 \<Longrightarrow> episode_label (Number n) = number_to_string n"
  by (simp add: episode_label_def)

lemma episode_label_absent: "episode_label Null = ''unknown''"
  by (simp add: episode_label_def)

subsection \<open>Candidates that are already known\<close>

text \<open>
  Claim C7. When the id of every candidate episode parsed from the feed is in
  \<^verbatim>\<open>existingEpisodeIds\<close>, \<^verbatim>\<open>extractEpisodes\<close> returns exactly the candidate list and makes
  no probe: the batch scheduler is not called.
\<close>

theorem extractEpisodes_all_known:
  assumes "parsedEpisodes Date_parse providerName channelImageUrl items = Inr candidates"
    and "\<forall>ep\<in>set candidates. ep_id ep \<in> existingEpisodeIds"
  shows "extractEpisodes Date_parse net providerName existingEpisodeIds items channelImageUrl
       = Inr (candidates, [])"
proof -
  have "filter (\<lambda>ep. ep_id ep \<in> existingEpisodeIds) candidates = candidates"
    using assms(2) by (simp add: filter_id_conv)
  moreover have "filter (\<lambda>ep. ep_id ep \<notin> existingEpisodeIds) candidates = []"
    using assms(2) by (simp add: filter_empty_conv)
  ultimately show ?thesis
    using assms(1) by (simp add: extractEpisodes_def)
qed

text \<open>An instance: the feed of one item, whose id is known.\<close>

theorem extractEpisodes_all_known_witness:
  "parsedEpisodes example_Date_parse ''darknetdiaries'' ''https://example.com/cover.jpg''
     (OneItem dated_item) = Inr [episode_165]
   \<and> ep_id episode_165 \<in> {''20251104-darknetdiaries-ep165''}
   \<and> extractEpisodes example_Date_parse all_ok ''darknetdiaries''
        {''20251104-darknetdiaries-ep165''} (OneItem dated_item) ''https://example.com/cover.jpg''
       = Inr ([episode_165], [])"
proof -
  have p: "parsedEpisodes example_Date_parse ''darknetdiaries'' ''https://example.com/cover.jpg''
     (OneItem dated_item) = Inr [episode_165]"
    by (simp add: parsedEpisodes_def episodeArray_def parse_dated_item)
  have k: "ep_id episode_165 \<in> {''20251104-darknetdiaries-ep165''}"
    by (simp add: episode_165_def)
  then have "\<forall>ep\<in>set [episode_165]. ep_id ep \<in> {''20251104-darknetdiaries-ep165''}" by simp
  with p show ?thesis
    using k extractEpisodes_all_known [of example_Date_parse "''darknetdiaries''"
        "''https://example.com/cover.jpg''" "OneItem dated_item" "[episode_165]"
        "{''20251104-darknetdiaries-ep165''}" all_ok]
    by simp
qed

text \<open>
  By contrast, a candidate whose id is not in the set is probed, also when the set is not
  empty: that is the case of a candidate that failed validation in an earlier run.
\<close>

lemma extractEpisodes_unknown_is_probed:
  "extractEpisodes example_Date_parse all_ok ''darknetdiaries'' {''20251007-darknetdiaries-ep164''}
     (OneItem dated_item) ''https://example.com/cover.jpg''
   = Inr ([episode_165], [[(0, [Head 1])]])"
proof -
  have p: "parsedEpisodes example_Date_parse ''darknetdiaries'' ''https://example.com/cover.jpg''
     (OneItem dated_item) = Inr [episode_165]"
    by (simp add: parsedEpisodes_def episodeArray_def parse_dated_item)
  have v: "validateMp3UrlsBatch all_ok [''https://traffic.example.com/ep165.mp3'']
      = ([True], [[(0, [Head 1])]])"
    by (simp add: validateMp3UrlsBatch_eq probe_result_def probe_events_def validateMp3Url_def
        all_ok_def attempt_loop.simps spec_windows_def spec_windows_from_def BATCH_SIZE_def
        upt_conv_Cons)
  show ?thesis
    by (simp add: extractEpisodes_def p) (simp add: episode_165_def v)
qed


end
